theory Spec2Isabelle
  imports Main "HOL-Library.Word" "HOL-Library.AList" "HOL-Library.Sublist"
begin

unbundle bit_operations_syntax

section \<open>pyutk: the Python interface to the UTK executables\<close>

text \<open>
  The development follows \<^verbatim>\<open>src/pyutk/pyutk.py\<close>. Python strings are \<open>string\<close>
  (one \<open>char\<close> per code point below 256), Python integers are \<open>int\<close>, exceptions are
  values of the type \<open>error\<close>, and everything the module reads from or writes to its
  environment (module globals, the file system) is passed explicitly.
\<close>

subsection \<open>Exceptions\<close>

datatype error =
    FileNotFoundError
  | FileExistsError
  | ValueError
  | IndexError
  | AttributeError
  | TypeError
  | KeyError
  | OSError
  | UnicodeDecodeError
  | OutsideModel

subsection \<open>Module globals and the operating system\<close>

text \<open>
  The three module globals \<^verbatim>\<open>__UTK__DIR__\<close>, \<^verbatim>\<open>__UTK__WDIR__\<close> and
  \<^verbatim>\<open>__UTK__SILENCE__\<close>, together with what the \<^verbatim>\<open>os\<close> calls of the module
  observe: \<open>path_exists\<close> is \<^verbatim>\<open>os.path.exists\<close>, \<open>path_isdir\<close> is
  \<^verbatim>\<open>os.path.isdir\<close>, \<open>access_x\<close> is \<^verbatim>\<open>os.access(p, os.X_OK)\<close>, \<open>listdir\<close> is
  \<^verbatim>\<open>os.listdir\<close> (the error is the exception it raises), and \<open>mkdir_error\<close> is the
  exception \<^verbatim>\<open>os.mkdir\<close> would raise on a path (missing parent, permissions), if any.
  \<open>file_bytes\<close> gives the bytes of each regular file that can be opened for reading,
  and \<open>open_error\<close> is the exception \<^verbatim>\<open>open\<close> would raise on a path opened for
  writing (missing directory, permissions), if any.
\<close>

record world =
  UTK_DIR :: string
  UTK_WDIR :: string
  UTK_SILENCE :: bool
  path_exists :: "string \<Rightarrow> bool"
  path_isdir :: "string \<Rightarrow> bool"
  access_x :: "string \<Rightarrow> bool"
  listdir :: "string \<Rightarrow> error + string list"
  mkdir_error :: "string \<Rightarrow> error option"
  file_bytes :: "string \<Rightarrow> 8 word list option"
  open_error :: "string \<Rightarrow> error option"

text \<open>\<^verbatim>\<open>os.mkdir\<close>: the directory exists afterwards, unless the call raises.\<close>

definition os_mkdir :: "string \<Rightarrow> world \<Rightarrow> (error + unit) \<times> world" where
  "os_mkdir p w =
     (if path_exists w p then (Inl FileExistsError, w)
      else case mkdir_error w p of
             Some e \<Rightarrow> (Inl e, w)
           | None \<Rightarrow> (Inr (), w\<lparr>path_exists := (path_exists w)(p := True),
                                 path_isdir := (path_isdir w)(p := True)\<rparr>))"

text \<open>\<^verbatim>\<open>os.path.join\<close> of two components (posixpath).\<close>

definition path_join :: "string \<Rightarrow> string \<Rightarrow> string" where
  "path_join a b =
     (if b \<noteq> [] \<and> hd b = CHR ''/'' then b
      else if a = [] \<or> last a = CHR ''/'' then a @ b
      else a @ ''/'' @ b)"

text \<open>
  \<^verbatim>\<open>set_dir\<close> declares \<^verbatim>\<open>global __UTK__DIR__\<close>, so its assignment updates the module
  global. The exception leaves the state as it was.
\<close>

definition set_dir :: "string \<Rightarrow> world \<Rightarrow> (error + unit) \<times> world" where
  "set_dir dir w =
     (if \<not> path_exists w dir then (Inl FileNotFoundError, w)
      else (Inr (), w\<lparr>UTK_DIR := dir\<rparr>))"

text \<open>
  \<^verbatim>\<open>set_wdir\<close> has no \<^verbatim>\<open>global\<close> statement: its assignment
  \<^verbatim>\<open>__UTK__DIR__ = dir\<close> binds a name local to the call, which is dropped on return.
  The local binding is the \<open>let\<close> below; the module globals are not touched.
\<close>

definition set_wdir :: "string \<Rightarrow> world \<Rightarrow> (error + unit) \<times> world" where
  "set_wdir dir w =
     (case (if \<not> path_exists w dir then os_mkdir dir w else (Inr (), w)) of
        (Inl e, w') \<Rightarrow> (Inl e, w')
      | (Inr u, w') \<Rightarrow> (let local_UTK_DIR = dir in (Inr (), w')))"

definition set_silence :: "bool \<Rightarrow> world \<Rightarrow> world" where
  "set_silence silence w = w\<lparr>UTK_SILENCE := silence\<rparr>"

definition get_samplers_dir :: "world \<Rightarrow> string" where
  "get_samplers_dir w = path_join (UTK_DIR w) ''samplers''"

definition get_discrepancy_dir :: "world \<Rightarrow> string" where
  "get_discrepancy_dir w = path_join (UTK_DIR w) ''discrepancy''"

definition get_silence_args :: "world \<Rightarrow> string list" where
  "get_silence_args w = (if UTK_SILENCE w then [''--silent''] else [])"

text \<open>
  The temporary file of \<^verbatim>\<open>Sampler.sample\<close>, \<^verbatim>\<open>Discrepancy.compute\<close> and
  \<^verbatim>\<open>Discrepancy.compute_from_file\<close>:
  \<^verbatim>\<open>os.path.join(__UTK__WDIR__, uuid.uuid4().hex + ".dat")\<close>, with the hexadecimal
  digits of the fresh UUID given as \<open>uuid_hex\<close>.
\<close>

definition tmp_path :: "world \<Rightarrow> string \<Rightarrow> string" where
  "tmp_path w uuid_hex = path_join (UTK_WDIR w) (uuid_hex @ ''.dat'')"

text \<open>The state of a fresh interpreter whose temporary directory is \<^verbatim>\<open>/tmp\<close>, seen
  from a file system that holds the directories \<^verbatim>\<open>/tmp\<close> and \<^verbatim>\<open>/data\<close>.\<close>

definition world0 :: world where
  "world0 = \<lparr>UTK_DIR = [], UTK_WDIR = ''/tmp'', UTK_SILENCE = True,
             path_exists = (\<lambda>p. p = ''/tmp'' \<or> p = ''/data''),
             path_isdir = (\<lambda>p. p = ''/tmp'' \<or> p = ''/data''),
             access_x = (\<lambda>p. p = ''/tmp'' \<or> p = ''/data''),
             listdir = (\<lambda>p. if p = ''/tmp'' \<or> p = ''/data'' then Inr [] else Inl FileNotFoundError),
             mkdir_error = (\<lambda>p. None), file_bytes = (\<lambda>p. None),
             open_error = (\<lambda>p. None)\<rparr>"

subsection \<open>Python strings\<close>

text \<open>The line feed, the tab and the carriage return.\<close>

abbreviation LF :: char where "LF \<equiv> CHR 0x0A"
abbreviation TAB :: char where "TAB \<equiv> CHR 0x09"
abbreviation CR :: char where "CR \<equiv> CHR 0x0D"

text \<open>
  The white space of \<^verbatim>\<open>str.strip()\<close> and of \<^verbatim>\<open>int()\<close> among the code points below 256:
  U+0009 to U+000D, U+001C to U+0020, U+0085 and U+00A0.
\<close>

definition isspace :: "char \<Rightarrow> bool" where
  "isspace c \<longleftrightarrow>
     c \<in> set [CHR 0x09, CHR 0x0A, CHR 0x0B, CHR 0x0C, CHR 0x0D,
              CHR 0x1C, CHR 0x1D, CHR 0x1E, CHR 0x1F, CHR 0x20, CHR 0x85, CHR 0xA0]"

definition strip :: "string \<Rightarrow> string" where
  "strip s = rev (dropWhile isspace (rev (dropWhile isspace s)))"

text \<open>
  \<^verbatim>\<open>str.lower()\<close> on one code point below 256: the upper-case letters there are
  A to Z and U+00C0 to U+00DE without the multiplication sign U+00D7.
\<close>

definition lower_char :: "char \<Rightarrow> char" where
  "lower_char c =
     (let k = (of_char c :: nat)
      in if (65 \<le> k \<and> k \<le> 90) \<or> (192 \<le> k \<and> k \<le> 222 \<and> k \<noteq> 215)
         then char_of (k + 32) else c)"

definition lower :: "string \<Rightarrow> string" where
  "lower s = map lower_char s"

text \<open>\<^verbatim>\<open>sub in s\<close> for strings: \<open>sub\<close> occurs in \<open>s\<close> as a contiguous piece.\<close>

fun contains :: "string \<Rightarrow> string \<Rightarrow> bool" where
  "contains sub [] = (sub = [])"
| "contains sub (c # cs) = (prefix sub (c # cs) \<or> contains sub cs)"

definition endswith :: "string \<Rightarrow> string \<Rightarrow> bool" where
  "endswith s suf \<longleftrightarrow> length suf \<le> length s \<and> drop (length s - length suf) s = suf"

text \<open>
  \<^verbatim>\<open>s.split(sep)\<close> with a separator: the pieces between the occurrences of \<open>sep\<close>,
  found from the left without overlap. \<open>acc\<close> is the piece being read. An empty
  separator raises \<^verbatim>\<open>ValueError\<close>.
\<close>

function split_from :: "string \<Rightarrow> string \<Rightarrow> string \<Rightarrow> string list" where
  "split_from sep acc [] = [acc]"
| "split_from sep acc (c # cs) =
     (if sep \<noteq> [] \<and> prefix sep (c # cs)
      then acc # split_from sep [] (drop (length sep) (c # cs))
      else split_from sep (acc @ [c]) cs)"
  by pat_completeness auto
termination
  by (relation "measure (\<lambda>(sep, acc, s). length s)") auto

definition str_split :: "string \<Rightarrow> string \<Rightarrow> error + string list" where
  "str_split s sep = (if sep = [] then Inl ValueError else Inr (split_from sep [] s))"

text \<open>\<^verbatim>\<open>sep.join(xs)\<close>.\<close>

fun join :: "string \<Rightarrow> string list \<Rightarrow> string" where
  "join sep [] = []"
| "join sep [x] = x"
| "join sep (x # y # ys) = x @ sep @ join sep (y # ys)"

text \<open>\<^verbatim>\<open>s[k:]\<close>: a negative \<open>k\<close> counts from the end of the string.\<close>

definition slice_from :: "int \<Rightarrow> string \<Rightarrow> string" where
  "slice_from k s = (if 0 \<le> k then drop (nat k) s else drop (length s - nat (- k)) s)"

text \<open>
  \<^verbatim>\<open>int(s)\<close> in base ten: white space around the number is dropped, one sign is
  allowed, and the digits may be grouped by single underscores. \<open>None\<close> is the
  \<^verbatim>\<open>ValueError\<close>. The white space of \<^verbatim>\<open>int\<close> is not that of \<^verbatim>\<open>str.strip()\<close>: below
  U+0080 it is U+0009 to U+000D and the space only, so U+001C to U+001F make \<^verbatim>\<open>int\<close>
  raise; U+0085 and U+00A0 are dropped.
\<close>

definition int_isspace :: "char \<Rightarrow> bool" where
  "int_isspace c \<longleftrightarrow>
     c \<in> set [CHR 0x09, CHR 0x0A, CHR 0x0B, CHR 0x0C, CHR 0x0D, CHR 0x20, CHR 0x85, CHR 0xA0]"

definition int_strip :: "string \<Rightarrow> string" where
  "int_strip s = rev (dropWhile int_isspace (rev (dropWhile int_isspace s)))"

definition isdigit :: "char \<Rightarrow> bool" where
  "isdigit c \<longleftrightarrow> c \<in> set ''0123456789''"

definition digits_value :: "string \<Rightarrow> int" where
  "digits_value ds = foldl (\<lambda>a c. 10 * a + (int (of_char c) - 48)) 0 ds"

definition py_int :: "string \<Rightarrow> int option" where
  "py_int s =
     (let t = int_strip s;
          neg = (t \<noteq> [] \<and> hd t = CHR ''-'');
          body = (if t \<noteq> [] \<and> (hd t = CHR ''-'' \<or> hd t = CHR ''+'') then tl t else t);
          groups = split_from ''_'' [] body
      in if list_all (\<lambda>g. g \<noteq> [] \<and> list_all isdigit g) groups
         then Some ((if neg then - 1 else 1) * digits_value (concat groups))
         else None)"

text \<open>
  The text a file opened in text mode delivers: \<^verbatim>\<open>\r\n\<close> and a lone \<^verbatim>\<open>\r\<close> are read as
  \<^verbatim>\<open>\n\<close> (universal newlines), and iterating over the file gives its lines, each with
  its line feed, the last one possibly without.
\<close>

fun universal_newlines :: "string \<Rightarrow> string" where
  "universal_newlines [] = []"
| "universal_newlines [c] = (if c = CR then [LF] else [c])"
| "universal_newlines (c # d # ds) =
     (if c = CR \<and> d = LF then LF # universal_newlines ds
      else if c = CR then LF # universal_newlines (d # ds)
      else c # universal_newlines (d # ds))"

fun lines_from :: "string \<Rightarrow> string \<Rightarrow> string list" where
  "lines_from acc [] = (if acc = [] then [] else [acc])"
| "lines_from acc (c # cs) =
     (if c = LF then (acc @ [c]) # lines_from [] cs else lines_from (acc @ [c]) cs)"

definition text_lines :: "string \<Rightarrow> string list" where
  "text_lines s = lines_from [] (universal_newlines s)"

subsection \<open>Paths\<close>

text \<open>\<^verbatim>\<open>p.rfind(c)\<close> for one character: the last index of \<open>c\<close>, or \<open>-1\<close>.\<close>

definition rfind :: "char \<Rightarrow> string \<Rightarrow> int" where
  "rfind c p = int (length (dropWhile (\<lambda>x. x \<noteq> c) (rev p))) - 1"

text \<open>
  \<^verbatim>\<open>os.path.splitext\<close> (posixpath): the extension starts at the last dot of the last
  component, unless that component has only dots before it.
\<close>

definition splitext :: "string \<Rightarrow> string \<times> string" where
  "splitext p =
     (let sepIndex = rfind CHR ''/'' p;
          dotIndex = rfind CHR ''.'' p
      in if dotIndex > sepIndex \<and>
            list_ex (\<lambda>x. x \<noteq> CHR ''.'')
              (take (nat (dotIndex - (sepIndex + 1))) (drop (nat (sepIndex + 1)) p))
         then (take (nat dotIndex) p, drop (nat dotIndex) p)
         else (p, []))"

subsection \<open>Discovery of the samplers\<close>

text \<open>
  The values of the dictionary \<^verbatim>\<open>samplers\<close>: a set of dimensions, the sorted list
  that replaces it, or, with \<^verbatim>\<open>split_i_d\<close>, an inner dictionary from \<^verbatim>\<open>"d"\<close> and
  \<^verbatim>\<open>"i"\<close> to such values. A dictionary is an association list in insertion order.
\<close>

datatype dims = PySet "int set" | PyList "int list"

datatype sampler_value = Dims dims | Split "(string \<times> dims) list"

type_synonym samplers = "(string \<times> sampler_value) list"

text \<open>\<^verbatim>\<open>x.append(dim)\<close> and \<^verbatim>\<open>x.add(dim)\<close>: a set has no \<^verbatim>\<open>append\<close>, a list has no
  \<^verbatim>\<open>add\<close>.\<close>

fun py_append :: "dims \<Rightarrow> int \<Rightarrow> error + dims" where
  "py_append (PySet S) dim = Inl AttributeError"
| "py_append (PyList xs) dim = Inr (PyList (xs @ [dim]))"

fun py_add :: "dims \<Rightarrow> int \<Rightarrow> error + dims" where
  "py_add (PySet S) dim = Inr (PySet (insert dim S))"
| "py_add (PyList xs) dim = Inl AttributeError"

fun py_sorted :: "dims \<Rightarrow> dims" where
  "py_sorted (PySet S) = PyList (sorted_list_of_set S)"
| "py_sorted (PyList xs) = PyList (sort xs)"

text \<open>
  \<^verbatim>\<open>samplers[name][key].append(dim)\<close> for the inner dictionary \<open>m\<close> of \<open>name\<close>.
\<close>

definition append_under :: "string \<Rightarrow> string \<Rightarrow> int \<Rightarrow> (string \<times> dims) list \<Rightarrow> samplers
    \<Rightarrow> error + samplers" where
  "append_under name key dim m s =
     (case map_of m key of
        None \<Rightarrow> Inl KeyError
      | Some v \<Rightarrow>
          (case py_append v dim of
             Inl e \<Rightarrow> Inl e
           | Inr v' \<Rightarrow> Inr (AList.update name (Split (AList.update key v' m)) s)))"

definition sampler_info_of :: "string \<Rightarrow> string list" where
  "sampler_info_of file = split_from ''_'' [] file"

definition sampler_name_of :: "string \<Rightarrow> string" where
  "sampler_name_of file = join ''_'' (butlast (sampler_info_of file))"

text \<open>\<^verbatim>\<open>int(sampler_info[-1][:-2])\<close>.\<close>

definition sampler_dim_of :: "string \<Rightarrow> int option" where
  "sampler_dim_of file =
     (let t = last (sampler_info_of file) in py_int (take (length t - 2) t))"

text \<open>
  The body of the \<^verbatim>\<open>try\<close> block for one file. The result is the exception that
  leaves the block, if any, with the dictionary as the statements before the
  exception left it. The branches for a missing name, or for a value that is not of
  the kind the flag \<^verbatim>\<open>split_i_d\<close> creates, give the exception Python would raise
  there; a single call never reaches them.
\<close>

definition try_body :: "bool \<Rightarrow> string \<Rightarrow> samplers \<Rightarrow> error option \<times> samplers" where
  "try_body split_i_d file samplers =
     (let sampler_info = sampler_info_of file;
          sampler_name = sampler_name_of file
      in case sampler_dim_of file of
           None \<Rightarrow> (Some ValueError, samplers)
         | Some dim \<Rightarrow>
             (let s1 = (if map_of samplers sampler_name = None
                        then AList.update sampler_name
                               (if split_i_d then Split [] else Dims (PySet {})) samplers
                        else samplers)
              in if split_i_d then
                   (case map_of s1 sampler_name of
                      Some (Split m) \<Rightarrow>
                        (let m1 = (if map_of m ''d'' = None
                                   then AList.update ''d'' (PySet {}) m else m);
                             m2 = (if map_of m1 ''i'' = None
                                   then AList.update ''i'' (PySet {}) m1 else m1);
                             s2 = AList.update sampler_name (Split m2) s1
                         in if length sampler_info \<le> 1 then (Some IndexError, s2)
                            else
                              (case (if endswith (sampler_info ! 1) ''dd''
                                     then append_under sampler_name ''d'' dim m2 s2
                                     else Inr s2) of
                                 Inl e \<Rightarrow> (Some e, s2)
                               | Inr s3 \<Rightarrow>
                                   (if endswith (sampler_info ! 1) ''di''
                                    then (case map_of s3 sampler_name of
                                            Some (Split m3) \<Rightarrow>
                                              (case append_under sampler_name ''i'' dim m3 s3 of
                                                 Inl e \<Rightarrow> (Some e, s3)
                                               | Inr s4 \<Rightarrow> (None, s4))
                                          | Some (Dims v) \<Rightarrow> (Some TypeError, s3)
                                          | None \<Rightarrow> (Some KeyError, s3))
                                    else (None, s3))))
                    | Some (Dims v) \<Rightarrow> (Some TypeError, s1)
                    | None \<Rightarrow> (Some KeyError, s1))
                 else
                   (case map_of s1 sampler_name of
                      Some (Dims v) \<Rightarrow>
                        (case py_add v dim of
                           Inl e \<Rightarrow> (Some e, s1)
                         | Inr v' \<Rightarrow> (None, AList.update sampler_name (Dims v') s1))
                    | Some (Split m) \<Rightarrow> (Some AttributeError, s1)
                    | None \<Rightarrow> (Some KeyError, s1))))"

text \<open>The test \<^verbatim>\<open>is_sampler\<close>, on the path of the file.\<close>

definition is_sampler :: "world \<Rightarrow> string \<Rightarrow> bool" where
  "is_sampler w filepath \<longleftrightarrow>
     access_x w filepath \<and> \<not> path_isdir w filepath \<and>
     (contains ''dd'' filepath \<or> contains ''di'' filepath)"

text \<open>The \<^verbatim>\<open>for\<close> loop over the listing; \<^verbatim>\<open>except Exception: pass\<close> drops the
  exception and keeps the dictionary.\<close>

fun scan_files :: "bool \<Rightarrow> world \<Rightarrow> string list \<Rightarrow> samplers \<Rightarrow> samplers" where
  "scan_files split_i_d w [] samplers = samplers"
| "scan_files split_i_d w (file # files) samplers =
     (let filepath = path_join (get_samplers_dir w) file
      in if is_sampler w filepath
         then scan_files split_i_d w files (snd (try_body split_i_d file samplers))
         else scan_files split_i_d w files samplers)"

text \<open>The two closing loops, on one entry of the dictionary.\<close>

fun sort_flat :: "sampler_value \<Rightarrow> error + sampler_value" where
  "sort_flat (Dims v) = Inr (Dims (py_sorted v))"
| "sort_flat (Split m) = Inl TypeError"

fun sort_split :: "sampler_value \<Rightarrow> error + sampler_value" where
  "sort_split (Split m) =
     (case map_of m ''d'' of
        None \<Rightarrow> Inl KeyError
      | Some v \<Rightarrow> Inr (Split (AList.update ''d'' (py_sorted v) m)))"
| "sort_split (Dims v) = Inl TypeError"

fun sort_entries :: "(sampler_value \<Rightarrow> error + sampler_value) \<Rightarrow> samplers \<Rightarrow> error + samplers" where
  "sort_entries f [] = Inr []"
| "sort_entries f ((name, v) # rest) =
     (case f v of
        Inl e \<Rightarrow> Inl e
      | Inr v' \<Rightarrow> (case sort_entries f rest of
                     Inl e \<Rightarrow> Inl e
                   | Inr rest' \<Rightarrow> Inr ((name, v') # rest')))"

definition get_samplers :: "bool \<Rightarrow> world \<Rightarrow> error + samplers" where
  "get_samplers split_i_d w =
     (case listdir w (get_samplers_dir w) of
        Inl e \<Rightarrow> Inl e
      | Inr files \<Rightarrow>
          sort_entries (if split_i_d then sort_split else sort_flat)
            (scan_files split_i_d w files []))"

text \<open>A samplers directory \<^verbatim>\<open>samplers\<close> with the given executable regular files.\<close>

definition world_with :: "string list \<Rightarrow> world" where
  "world_with files =
     \<lparr>UTK_DIR = [], UTK_WDIR = ''/tmp'', UTK_SILENCE = True,
      path_exists = (\<lambda>p. p = ''samplers'' \<or> p \<in> set (map (path_join ''samplers'') files)),
      path_isdir = (\<lambda>p. p = ''samplers''),
      access_x = (\<lambda>p. True),
      listdir = (\<lambda>p. if p = ''samplers'' then Inr files else Inl FileNotFoundError),
      mkdir_error = (\<lambda>p. None),
      file_bytes = (\<lambda>p. if p \<in> set (map (path_join ''samplers'') files) then Some [] else None),
      open_error = (\<lambda>p. None)\<rparr>"

text \<open>The same, under the UTK directory \<open>dir\<close>.\<close>

definition world_in :: "string \<Rightarrow> string list \<Rightarrow> world" where
  "world_in dir files =
     (world_with [])\<lparr>UTK_DIR := dir,
       listdir := (\<lambda>p. if p = path_join dir ''samplers'' then Inr files
                          else Inl FileNotFoundError)\<rparr>"

subsection \<open>Files and doubles\<close>

text \<open>
  A double is its IEEE 754 bit pattern. What numpy does between doubles and text is
  not part of the module and is a parameter wherever it is used: \<open>np_double\<close> is
  \<^verbatim>\<open>np.double(s)\<close> on a string (\<open>None\<close> is its \<^verbatim>\<open>ValueError\<close>) and \<open>astype_str\<close> is the
  string \<^verbatim>\<open>astype(str)\<close> gives for one element.
\<close>

type_synonym byte = "8 word"
type_synonym double = "64 word"

text \<open>
  Text files are read and written in UTF-8. A string of this development holds code
  points below 256 only, so its characters take one or two bytes. The decoder follows
  the well-formed sequences of UTF-8: \<open>utf8_seq_of b bs\<close> reads the sequence that starts
  with the byte \<open>b\<close> and goes on in \<open>bs\<close>, and gives its code point and its number of
  bytes, or says that the bytes end inside the sequence, or that they are not UTF-8.
\<close>

datatype utf8_seq = Complete nat nat | Incomplete | Invalid

definition is_cont :: "byte \<Rightarrow> bool" where
  "is_cont c \<longleftrightarrow> 128 \<le> unat c \<and> unat c \<le> 191"

definition second_ok :: "byte \<Rightarrow> byte \<Rightarrow> bool" where
  "second_ok b c \<longleftrightarrow>
     (if unat b = 224 then 160 \<le> unat c \<and> unat c \<le> 191
      else if unat b = 237 then 128 \<le> unat c \<and> unat c \<le> 159
      else if unat b = 240 then 144 \<le> unat c \<and> unat c \<le> 191
      else if unat b = 244 then 128 \<le> unat c \<and> unat c \<le> 143
      else is_cont c)"

definition utf8_seq_of :: "byte \<Rightarrow> byte list \<Rightarrow> utf8_seq" where
  "utf8_seq_of b bs =
     (if unat b < 128 then Complete (unat b) 1
      else if 194 \<le> unat b \<and> unat b \<le> 223 then
        (case bs of
           [] \<Rightarrow> Incomplete
         | c # cs \<Rightarrow>
             if is_cont c then Complete ((unat b - 192) * 64 + (unat c - 128)) 2 else Invalid)
      else if 224 \<le> unat b \<and> unat b \<le> 239 then
        (case bs of
           [] \<Rightarrow> Incomplete
         | c # cs \<Rightarrow>
             if \<not> second_ok b c then Invalid
             else (case cs of
                     [] \<Rightarrow> Incomplete
                   | d # ds \<Rightarrow>
                       if is_cont d
                       then Complete (((unat b - 224) * 64 + (unat c - 128)) * 64
                                      + (unat d - 128)) 3
                       else Invalid))
      else if 240 \<le> unat b \<and> unat b \<le> 244 then
        (case bs of
           [] \<Rightarrow> Incomplete
         | c # cs \<Rightarrow>
             if \<not> second_ok b c then Invalid
             else (case cs of
                     [] \<Rightarrow> Incomplete
                   | d # ds \<Rightarrow>
                       if \<not> is_cont d then Invalid
                       else (case ds of
                               [] \<Rightarrow> Incomplete
                             | e # es \<Rightarrow>
                                 if is_cont e
                                 then Complete
                                        ((((unat b - 240) * 64 + (unat c - 128)) * 64
                                          + (unat d - 128)) * 64 + (unat e - 128)) 4
                                 else Invalid)))
      else Invalid)"

text \<open>
  The decoder on a chunk of bytes: the text decoded, and the bytes of a sequence the
  chunk ends in, which are kept for the next chunk. Bytes that are not UTF-8 raise
  \<^verbatim>\<open>UnicodeDecodeError\<close>. A well-formed sequence for a code point from 256 on is a
  character that the strings here do not hold: the result \<open>OutsideModel\<close> says so, and
  nothing is stated about such a file.
\<close>

fun utf8_chunk :: "byte list \<Rightarrow> error + (string \<times> byte list)" where
  "utf8_chunk [] = Inr ([], [])"
| "utf8_chunk (b # bs) =
     (case utf8_seq_of b bs of
        Invalid \<Rightarrow> Inl UnicodeDecodeError
      | Incomplete \<Rightarrow> Inr ([], b # bs)
      | Complete cp n \<Rightarrow>
          if 256 \<le> cp then Inl OutsideModel
          else (case utf8_chunk (drop (n - 1) bs) of
                  Inl e \<Rightarrow> Inl e
                | Inr (s, pending) \<Rightarrow> Inr (char_of cp # s, pending)))"

text \<open>
  The text of a whole file opened with \<^verbatim>\<open>open(filepath, "r")\<close>: bytes left over at the
  end of the file raise too. The file is decoded before its lines are used, as
  Python does for a file of one chunk.
\<close>

definition utf8_decode :: "byte list \<Rightarrow> error + string" where
  "utf8_decode bs =
     (case utf8_chunk bs of
        Inl e \<Rightarrow> Inl e
      | Inr (s, pending) \<Rightarrow> if pending = [] then Inr s else Inl UnicodeDecodeError)"

definition utf8_encode_char :: "char \<Rightarrow> byte list" where
  "utf8_encode_char c =
     (let k = (of_char c :: nat)
      in if k < 128 then [of_nat k] else [of_nat (192 + k div 64), of_nat (128 + k mod 64)])"

definition utf8_encode :: "string \<Rightarrow> byte list" where
  "utf8_encode s = concat (map utf8_encode_char s)"

text \<open>\<^verbatim>\<open>os.remove\<close>.\<close>

definition os_remove :: "string \<Rightarrow> world \<Rightarrow> error + world" where
  "os_remove p w =
     (if file_bytes w p = None then Inl FileNotFoundError
      else Inr (w\<lparr>file_bytes := (file_bytes w)(p := None)\<rparr>))"

text \<open>\<^verbatim>\<open>str(k)\<close> for an integer.\<close>

fun digits_of :: "nat \<Rightarrow> string" where
  "digits_of k =
     (if k < 10 then [char_of (48 + k)] else digits_of (k div 10) @ [char_of (48 + k mod 10)])"

definition str_int :: "int \<Rightarrow> string" where
  "str_int k = (if k < 0 then ''-'' @ digits_of (nat (- k)) else digits_of (nat k))"

subsection \<open>PointReader\<close>

record pointreader =
  pr_n :: nat
  pr_d :: nat
  pr_sep :: string

text \<open>\<^verbatim>\<open>PointReader(n, d, sep="\t")\<close>.\<close>

definition PointReader :: "nat \<Rightarrow> nat \<Rightarrow> pointreader" where
  "PointReader n d = \<lparr>pr_n = n, pr_d = d, pr_sep = [TAB]\<rparr>"

text \<open>\<^verbatim>\<open>np.empty((n, d))\<close>: an array of the shape asked for, whose cells hold whatever
  \<open>uninit\<close> says.\<close>

definition np_empty :: "(nat \<Rightarrow> nat \<Rightarrow> double) \<Rightarrow> nat \<Rightarrow> nat \<Rightarrow> double list list" where
  "np_empty uninit n d = map (\<lambda>i. map (\<lambda>j. uninit i j) [0..<d]) [0..<n]"

text \<open>A big-endian double from its eight bytes.\<close>

definition be_double :: "byte list \<Rightarrow> double" where
  "be_double bs = foldl (\<lambda>acc b. push_bit 8 acc OR ucast b) 0 bs"

text \<open>
  \<^verbatim>\<open>np.fromfile(filepath, dtype=">d", offset=4)\<close>: the complete items of eight bytes
  after the first four bytes of the file.
\<close>

definition fromfile_be_doubles :: "byte list \<Rightarrow> double list" where
  "fromfile_be_doubles bs =
     (let payload = drop 4 bs; num = length payload div 8
      in map (\<lambda>k. be_double (take 8 (drop (8 * k) payload))) [0..<num])"

text \<open>\<^verbatim>\<open>a.reshape((n, d))\<close> of a flat array, row by row.\<close>

definition reshape :: "nat \<Rightarrow> nat \<Rightarrow> 'a list \<Rightarrow> error + 'a list list" where
  "reshape n d xs =
     (if length xs = n * d then Inr (map (\<lambda>i. take d (drop (i * d) xs)) [0..<n])
      else Inl ValueError)"

definition read_bin :: "pointreader \<Rightarrow> world \<Rightarrow> string \<Rightarrow> error + double list list" where
  "read_bin pr w filepath =
     (case file_bytes w filepath of
        None \<Rightarrow> Inl FileNotFoundError
      | Some bs \<Rightarrow> reshape (pr_n pr) (pr_d pr) (fromfile_be_doubles bs))"

text \<open>
  The loop of \<^verbatim>\<open>read_text\<close> over the lines, \<open>i\<close> being the index \<^verbatim>\<open>enumerate\<close> gives.
  The assignment \<^verbatim>\<open>points[i] = coords\<close> raises \<^verbatim>\<open>IndexError\<close> past the last row, takes a
  row of \<open>d\<close> values, repeats a single value over the row, and raises \<^verbatim>\<open>ValueError\<close> for
  any other length.
\<close>

fun read_text_rows :: "(string \<Rightarrow> double option) \<Rightarrow> pointreader \<Rightarrow> nat \<Rightarrow> string list
    \<Rightarrow> double list list \<Rightarrow> error + double list list" where
  "read_text_rows np_double pr i [] points = Inr points"
| "read_text_rows np_double pr i (point # rest) points =
     (case str_split (strip point) (pr_sep pr) of
        Inl e \<Rightarrow> Inl e
      | Inr toks \<Rightarrow>
          (case those (map np_double toks) of
             None \<Rightarrow> Inl ValueError
           | Some coords \<Rightarrow>
               if length points \<le> i then Inl IndexError
               else if length coords = pr_d pr
                 then read_text_rows np_double pr (Suc i) rest (points[i := coords])
               else if length coords = 1
                 then read_text_rows np_double pr (Suc i) rest
                        (points[i := replicate (pr_d pr) (hd coords)])
               else Inl ValueError))"

text \<open>\<^verbatim>\<open>read_text\<close> on the text of the file.\<close>

definition read_text_of :: "(string \<Rightarrow> double option) \<Rightarrow> (nat \<Rightarrow> nat \<Rightarrow> double) \<Rightarrow> pointreader
    \<Rightarrow> string \<Rightarrow> error + double list list" where
  "read_text_of np_double uninit pr text =
     read_text_rows np_double pr 0 (text_lines text) (np_empty uninit (pr_n pr) (pr_d pr))"

definition read_text :: "(string \<Rightarrow> double option) \<Rightarrow> (nat \<Rightarrow> nat \<Rightarrow> double) \<Rightarrow> pointreader
    \<Rightarrow> world \<Rightarrow> string \<Rightarrow> error + double list list" where
  "read_text np_double uninit pr w filepath =
     (case file_bytes w filepath of
        None \<Rightarrow> Inl FileNotFoundError
      | Some bs \<Rightarrow>
          (case utf8_decode bs of
             Inl e \<Rightarrow> Inl e
           | Inr text \<Rightarrow> read_text_of np_double uninit pr text))"

text \<open>\<^verbatim>\<open>PointReader.read\<close>.\<close>

definition read :: "(string \<Rightarrow> double option) \<Rightarrow> (nat \<Rightarrow> nat \<Rightarrow> double) \<Rightarrow> pointreader
    \<Rightarrow> world \<Rightarrow> string \<Rightarrow> error + double list list" where
  "read np_double uninit pr w filepath =
     (if snd (splitext filepath) = ''.dat'' then read_text np_double uninit pr w filepath
      else read_bin pr w filepath)"

text \<open>
  The extension as the specification words it: the path ends in \<^verbatim>\<open>.dat\<close>, and what
  its last component has before that ending is not made of dots only.
\<close>

definition basename :: "string \<Rightarrow> string" where
  "basename p = rev (takeWhile (\<lambda>c. c \<noteq> CHR ''/'') (rev p))"

definition has_dat_extension :: "string \<Rightarrow> bool" where
  "has_dat_extension p \<longleftrightarrow>
     4 \<le> length p \<and> drop (length p - 4) p = ''.dat'' \<and>
     list_ex (\<lambda>c. c \<noteq> CHR ''.'') (basename (take (length p - 4) p))"

text \<open>The big-endian bytes of a double, and a file of a header and doubles.\<close>

definition be_bytes :: "double \<Rightarrow> byte list" where
  "be_bytes v = map (\<lambda>k. ucast (drop_bit (8 * (7 - k)) v)) [0..<8]"

subsection \<open>PointWriter\<close>

text \<open>
  An open text file: its path, its bytes (what is on the disk together with what has
  been written through the handle), the position of the stream in bytes, and whether
  it was opened for appending, in which case every write goes to the end of the file.
\<close>

record handle =
  h_path :: string
  raw :: "byte list"
  pos :: nat
  appending :: bool

text \<open>\<^verbatim>\<open>tell()\<close> and \<^verbatim>\<open>seek(k)\<close>, on positions in bytes.\<close>

definition f_tell :: "handle \<Rightarrow> nat" where
  "f_tell h = pos h"

definition f_seek :: "nat \<Rightarrow> handle \<Rightarrow> handle" where
  "f_seek k h = h\<lparr>pos := k\<rparr>"

text \<open>
  \<^verbatim>\<open>read(1)\<close>. The stream decodes a chunk of at most 8192 bytes from the position and
  keeps a carriage return that ends the chunk for the next one. When that leaves a
  character, the first one is returned, a carriage return (with the line feed after
  it, if any) read as a line feed. When it leaves none, the file ends there: bytes
  kept from an unfinished sequence raise \<^verbatim>\<open>UnicodeDecodeError\<close>, and a carriage return
  kept is read as a line feed. The position moves by the bytes of what was returned;
  \<^verbatim>\<open>__process_header\<close> sets it again with \<^verbatim>\<open>seek\<close> before anything reads it.
\<close>

definition f_read1 :: "handle \<Rightarrow> error + (string \<times> handle)" where
  "f_read1 h =
     (let rest = drop (pos h) (raw h)
      in if rest = [] then Inr ([], h)
         else
           (case utf8_chunk (take 8192 rest) of
              Inl e \<Rightarrow> Inl e
            | Inr (s, pending) \<Rightarrow>
                (let s' = (if s \<noteq> [] \<and> last s = CR then butlast s else s)
                 in case s' of
                      [] \<Rightarrow>
                        if pending \<noteq> [] then Inl UnicodeDecodeError
                        else if s = [CR] then Inr ([LF], h\<lparr>pos := pos h + 1\<rparr>)
                        else Inr ([], h)
                    | c # cs \<Rightarrow>
                        if c = CR
                        then Inr ([LF], h\<lparr>pos := pos h + (if tl s \<noteq> [] \<and> hd (tl s) = LF
                                                            then 2 else 1)\<rparr>)
                        else Inr ([c], h\<lparr>pos := pos h + length (utf8_encode_char c)\<rparr>))))"

text \<open>\<^verbatim>\<open>write(s)\<close>: the bytes of \<open>s\<close> in UTF-8, a line feed written as it is (POSIX).\<close>

definition f_write :: "string \<Rightarrow> handle \<Rightarrow> handle" where
  "f_write s h =
     (let bs = utf8_encode s
      in if appending h
         then h\<lparr>raw := raw h @ bs, pos := length (raw h) + length bs\<rparr>
         else h\<lparr>raw := take (pos h) (raw h) @ bs @ drop (pos h + length bs) (raw h),
                pos := pos h + length bs\<rparr>)"

text \<open>
  \<^verbatim>\<open>open(outFile, 'a+')\<close> and \<^verbatim>\<open>open(outFile, 'w+')\<close>: the file exists afterwards, empty
  when it is new or opened with \<^verbatim>\<open>'w+'\<close>; with \<^verbatim>\<open>'a+'\<close> the stream starts at the end of
  the file.
\<close>

definition open_file :: "bool \<Rightarrow> string \<Rightarrow> world \<Rightarrow> error + (handle \<times> world)" where
  "open_file app outFile w =
     (case open_error w outFile of
        Some e \<Rightarrow> Inl e
      | None \<Rightarrow>
          (let bs = (if app then (case file_bytes w outFile of None \<Rightarrow> [] | Some old \<Rightarrow> old)
                     else [])
           in Inr (\<lparr>h_path = outFile, raw = bs, pos = length bs, appending = app\<rparr>,
                   w\<lparr>path_exists := (path_exists w)(outFile := True),
                     file_bytes := (file_bytes w)(outFile \<mapsto> bs)\<rparr>)))"

text \<open>\<^verbatim>\<open>file.close()\<close>: what was written is on the disk.\<close>

definition close_file :: "handle \<Rightarrow> world \<Rightarrow> world" where
  "close_file h w = w\<lparr>file_bytes := (file_bytes w)(h_path h \<mapsto> raw h)\<rparr>"

record pointwriter =
  pw_sep :: string
  pointset_sep :: string
  pw_append :: bool
  pw_file :: "handle option"

text \<open>\<^verbatim>\<open>PointWriter.close\<close> and \<^verbatim>\<open>PointWriter.open\<close>.\<close>

definition PointWriter_close :: "pointwriter \<Rightarrow> world \<Rightarrow> error + (pointwriter \<times> world)" where
  "PointWriter_close pw w =
     (case pw_file pw of
        None \<Rightarrow> Inl AttributeError
      | Some h \<Rightarrow> Inr (pw\<lparr>pw_file := None\<rparr>, close_file h w))"

definition PointWriter_open :: "string \<Rightarrow> pointwriter \<Rightarrow> world \<Rightarrow> error + (pointwriter \<times> world)" where
  "PointWriter_open outFile pw w =
     (case (if pw_file pw \<noteq> None then PointWriter_close pw w else Inr (pw, w)) of
        Inl e \<Rightarrow> Inl e
      | Inr (pw1, w1) \<Rightarrow>
          (case open_file (pw_append pw1) outFile w1 of
             Inl e \<Rightarrow> Inl e
           | Inr (h, w2) \<Rightarrow> Inr (pw1\<lparr>pw_file := Some h\<rparr>, w2)))"

text \<open>\<^verbatim>\<open>PointWriter(file, sep, pointset_sep, append)\<close>.\<close>

definition PointWriter :: "string option \<Rightarrow> string \<Rightarrow> string \<Rightarrow> bool \<Rightarrow> world
    \<Rightarrow> error + (pointwriter \<times> world)" where
  "PointWriter file sep psep app w =
     (let pw = \<lparr>pw_sep = sep, pointset_sep = psep, pw_append = app, pw_file = None\<rparr>
      in case file of
           None \<Rightarrow> Inr (pw, w)
         | Some outFile \<Rightarrow> PointWriter_open outFile pw w)"

text \<open>\<^verbatim>\<open>PointWriter()\<close> with every default: no file is opened.\<close>

definition PointWriter_default :: pointwriter where
  "PointWriter_default = \<lparr>pw_sep = [TAB], pointset_sep = ''#'', pw_append = True, pw_file = None\<rparr>"

fun write_points :: "(double \<Rightarrow> string) \<Rightarrow> pointwriter \<Rightarrow> handle \<Rightarrow> double list list \<Rightarrow> handle" where
  "write_points astype_str pw h [] = h"
| "write_points astype_str pw h (point # rest) =
     write_points astype_str pw
       (f_write [LF] (f_write (join (pw_sep pw) (map astype_str point)) h)) rest"

definition process_header :: "pointwriter \<Rightarrow> handle \<Rightarrow> error + handle" where
  "process_header pw h =
     (if pw_append pw then
        (let current = f_tell h
         in if current = 0 then Inr h
            else
              (case f_read1 (f_seek (current - 1) h) of
                 Inl e \<Rightarrow> Inl e
               | Inr (current_char, h2) \<Rightarrow>
                   (let h3 = f_seek current h2;
                        h4 = (if current_char \<noteq> [LF] then f_write [LF] h3 else h3);
                        h5 = f_write (pointset_sep pw) h4
                    in Inr (f_write [LF] h5))))
      else Inr h)"

text \<open>The argument of \<^verbatim>\<open>write\<close>: an array of two dimensions, or a sequence of such
  arrays.\<close>

datatype ndarray = Array2 "double list list" | Array3 "double list list list"

fun write_pointsets :: "(double \<Rightarrow> string) \<Rightarrow> pointwriter \<Rightarrow> handle \<Rightarrow> double list list list
    \<Rightarrow> handle" where
  "write_pointsets astype_str pw h [] = h"
| "write_pointsets astype_str pw h (p # rest) =
     write_pointsets astype_str pw
       (f_write [LF] (f_write (pointset_sep pw) (write_points astype_str pw h p))) rest"

text \<open>
  \<^verbatim>\<open>write(points)\<close>. Without an open file the first use of \<^verbatim>\<open>self.file\<close> raises
  \<^verbatim>\<open>AttributeError\<close>: in \<^verbatim>\<open>__process_header\<close> when appending, otherwise at the first
  row or point set.
\<close>

definition PointWriter_write :: "(double \<Rightarrow> string) \<Rightarrow> pointwriter \<Rightarrow> ndarray \<Rightarrow> error + pointwriter" where
  "PointWriter_write astype_str pw points =
     (case points of
        Array2 ps \<Rightarrow>
          (case pw_file pw of
             None \<Rightarrow> if pw_append pw \<or> ps \<noteq> [] then Inl AttributeError else Inr pw
           | Some h \<Rightarrow>
               (case process_header pw h of
                  Inl e \<Rightarrow> Inl e
                | Inr h' \<Rightarrow> Inr (pw\<lparr>pw_file := Some (write_points astype_str pw h' ps)\<rparr>)))
      | Array3 pss \<Rightarrow>
          (case pw_file pw of
             None \<Rightarrow> if pss \<noteq> [] then Inl AttributeError else Inr pw
           | Some h \<Rightarrow> Inr (pw\<lparr>pw_file := Some (write_pointsets astype_str pw h pss)\<rparr>)))"

text \<open>
  A call \<^verbatim>\<open>writer.write(...)\<close> with positional arguments. The method has the single
  parameter \<^verbatim>\<open>points\<close>, with the default \<^verbatim>\<open>np.asarray([[]])\<close>; more than one argument
  is a \<^verbatim>\<open>TypeError\<close>, and a string has no attribute \<^verbatim>\<open>ndim\<close>.
\<close>

datatype pyarg = ArgStr string | ArgArray ndarray

definition write_call :: "(double \<Rightarrow> string) \<Rightarrow> pointwriter \<Rightarrow> pyarg list \<Rightarrow> error + pointwriter" where
  "write_call astype_str pw args =
     (case args of
        [] \<Rightarrow> PointWriter_write astype_str pw (Array2 [[]])
      | [ArgArray points] \<Rightarrow> PointWriter_write astype_str pw points
      | [ArgStr s] \<Rightarrow> Inl AttributeError
      | _ \<Rightarrow> Inl TypeError)"

subsection \<open>DiscrepancyReader\<close>

record discrepancyreader =
  dr_sep :: string
  dr_exclude :: int

text \<open>\<^verbatim>\<open>DiscrepancyReader()\<close>.\<close>

definition DiscrepancyReader_default :: discrepancyreader where
  "DiscrepancyReader_default = \<lparr>dr_sep = [TAB], dr_exclude = 1\<rparr>"

text \<open>The inner loop: \<^verbatim>\<open>result[name] = np.double(value)\<close> for each pair of the zip.\<close>

fun fill_result :: "(string \<Rightarrow> double option) \<Rightarrow> (string \<times> string) list
    \<Rightarrow> (string \<times> double) list \<Rightarrow> error + (string \<times> double) list" where
  "fill_result np_double [] result = Inr result"
| "fill_result np_double ((name, val) # rest) result =
     (case np_double val of
        None \<Rightarrow> Inl ValueError
      | Some x \<Rightarrow> fill_result np_double rest (AList.update name x result))"

definition nonempty_tokens :: "string list \<Rightarrow> string list" where
  "nonempty_tokens toks = filter (\<lambda>t. t \<noteq> []) toks"

fun read_result_lines :: "(string \<Rightarrow> double option) \<Rightarrow> discrepancyreader \<Rightarrow> string list
    \<Rightarrow> string list \<Rightarrow> error + (string \<times> double) list list" where
  "read_result_lines np_double dr names [] = Inr []"
| "read_result_lines np_double dr names (line # rest) =
     (case str_split (strip line) (dr_sep dr) of
        Inl e \<Rightarrow> Inl e
      | Inr splitted \<Rightarrow>
          (case fill_result np_double (zip names (nonempty_tokens splitted)) [] of
             Inl e \<Rightarrow> Inl e
           | Inr result \<Rightarrow>
               (case read_result_lines np_double dr names rest of
                  Inl e \<Rightarrow> Inl e
                | Inr results \<Rightarrow> Inr (result # results))))"

text \<open>\<^verbatim>\<open>DiscrepancyReader.read\<close> on the text of the file: \<^verbatim>\<open>readline\<close> takes the first
  line (the empty string at the end of the file), the loop takes the others.\<close>

definition read_results_of :: "(string \<Rightarrow> double option) \<Rightarrow> discrepancyreader \<Rightarrow> string
    \<Rightarrow> error + (string \<times> double) list list" where
  "read_results_of np_double dr text =
     (let lines = text_lines text;
          first = (case lines of [] \<Rightarrow> [] | l # ls \<Rightarrow> l)
      in case str_split (strip first) (dr_sep dr) of
           Inl e \<Rightarrow> Inl e
         | Inr toks \<Rightarrow>
             read_result_lines np_double dr
               (map (\<lambda>name. lower (slice_from (dr_exclude dr) name)) (nonempty_tokens toks))
               (tl lines))"

definition read_results :: "(string \<Rightarrow> double option) \<Rightarrow> discrepancyreader \<Rightarrow> world \<Rightarrow> string
    \<Rightarrow> error + (string \<times> double) list list" where
  "read_results np_double dr w filepath =
     (case file_bytes w filepath of
        None \<Rightarrow> Inl FileNotFoundError
      | Some bs \<Rightarrow>
          (case utf8_decode bs of
             Inl e \<Rightarrow> Inl e
           | Inr text \<Rightarrow> read_results_of np_double dr text))"

subsection \<open>Discrepancy\<close>

record discrepancy =
  dc_name :: string
  dc_d :: string
  dc_exename :: string
  dc_args :: "string list"

text \<open>\<^verbatim>\<open>Discrepancy(name, d, index, **kwargs)\<close>, with \<open>d\<close> as the f-string renders it and
  the keyword arguments already flattened to strings.\<close>

definition Discrepancy :: "string \<Rightarrow> string \<Rightarrow> string \<Rightarrow> string list \<Rightarrow> discrepancy" where
  "Discrepancy name d index args =
     \<lparr>dc_name = name, dc_d = d, dc_exename = name @ ''_fromfile_'' @ d @ ''d'' @ index,
      dc_args = args\<rparr>"

text \<open>
  \<^verbatim>\<open>subprocess.run(args)\<close> is the parameter \<open>run\<close>: what the child process does to the
  file system, or the exception of a program that cannot be started.
\<close>

definition compute_to :: "(string \<Rightarrow> double option) \<Rightarrow> (string list \<Rightarrow> world \<Rightarrow> error + world)
    \<Rightarrow> discrepancy \<Rightarrow> world \<Rightarrow> string \<Rightarrow> string \<Rightarrow> int
    \<Rightarrow> error + ((string \<times> double) list list \<times> world)" where
  "compute_to np_double run dc w outfile input s =
     (let args0 = [path_join (get_discrepancy_dir w) (dc_exename dc), ''-i'', input, ''-o'', outfile];
          args1 = (if s > - 1 then args0 @ [''-s'', str_int s] else args0);
          args2 = args1 @ get_silence_args w @ dc_args dc
      in case run args2 w of
           Inl e \<Rightarrow> Inl e
         | Inr w' \<Rightarrow>
             (case read_results np_double DiscrepancyReader_default w' outfile of
                Inl e \<Rightarrow> Inl e
              | Inr results \<Rightarrow> Inr (results, w')))"

definition compute_from_file :: "(string \<Rightarrow> double option)
    \<Rightarrow> (string list \<Rightarrow> world \<Rightarrow> error + world) \<Rightarrow> discrepancy \<Rightarrow> world \<Rightarrow> string
    \<Rightarrow> string \<Rightarrow> int \<Rightarrow> bool \<Rightarrow> error + ((string \<times> double) list list \<times> world)" where
  "compute_from_file np_double run dc w uuid_hex input s clean =
     (let outfile = tmp_path w uuid_hex
      in case compute_to np_double run dc w outfile input s of
           Inl e \<Rightarrow> Inl e
         | Inr (discrepancy, w') \<Rightarrow>
             if clean
             then (case os_remove outfile w' of
                     Inl e \<Rightarrow> Inl e
                   | Inr w'' \<Rightarrow> Inr (discrepancy, w''))
             else Inr (discrepancy, w'))"

text \<open>
  \<^verbatim>\<open>Discrepancy.compute\<close>: \<open>uuid1\<close> and \<open>uuid2\<close> are the two fresh UUIDs. The writer is
  \<^verbatim>\<open>PointWriter()\<close>, and the call is \<^verbatim>\<open>writer.write(tmpfile, points)\<close>.
\<close>

definition compute :: "(string \<Rightarrow> double option) \<Rightarrow> (double \<Rightarrow> string)
    \<Rightarrow> (string list \<Rightarrow> world \<Rightarrow> error + world) \<Rightarrow> discrepancy \<Rightarrow> world \<Rightarrow> string \<Rightarrow> string
    \<Rightarrow> ndarray \<Rightarrow> int \<Rightarrow> bool \<Rightarrow> error + ((string \<times> double) list list \<times> world)" where
  "compute np_double astype_str run dc w uuid1 uuid2 points s clean =
     (let tmpfile = tmp_path w uuid1;
          writer = PointWriter_default
      in case write_call astype_str writer [ArgStr tmpfile, ArgArray points] of
           Inl e \<Rightarrow> Inl e
         | Inr writer' \<Rightarrow>
             (case compute_from_file np_double run dc w uuid2 tmpfile s clean of
                Inl e \<Rightarrow> Inl e
              | Inr (result, w') \<Rightarrow>
                  if clean
                  then (case os_remove tmpfile w' of
                          Inl e \<Rightarrow> Inl e
                        | Inr w'' \<Rightarrow> Inr (result, w''))
                  else Inr (result, w')))"

text \<open>A file system that holds one file, with the given bytes.\<close>

definition world_with_file :: "string \<Rightarrow> byte list \<Rightarrow> world" where
  "world_with_file p bs = world0\<lparr>file_bytes := (\<lambda>q. if q = p then Some bs else None)\<rparr>"

subsection \<open>Notions for the statements about the writer\<close>

text \<open>
  \<open>block_text\<close> is the text of one point set: each point on a line, its coordinates
  joined by the separator. \<open>header_text\<close> is what precedes a block appended to a file
  with the bytes \<open>c\<close>: nothing for an empty file, otherwise the sentinel line, after a
  line feed when the file does not end in a byte read as one. A handle is \<open>at_end\<close>
  when its position is the end of the file.
\<close>

definition block_text :: "(double \<Rightarrow> string) \<Rightarrow> string \<Rightarrow> double list list \<Rightarrow> string" where
  "block_text astype_str sep ps = concat (map (\<lambda>point. join sep (map astype_str point) @ [LF]) ps)"

definition header_text :: "string \<Rightarrow> byte list \<Rightarrow> string" where
  "header_text psep c =
     (if c = [] then []
      else (if last c = 0x0A \<or> last c = 0x0D then [] else [LF]) @ psep @ [LF])"

definition at_end :: "handle \<Rightarrow> bool" where
  "at_end h \<longleftrightarrow> pos h = length (raw h)"

text \<open>
  The uses of the writer the statements are about.
  \<open>write_file\<close> is \<^verbatim>\<open>with PointWriter(path, append=app) as f: f.write(points)\<close>, and
  \<open>append_two\<close> is \<^verbatim>\<open>with PointWriter(path, sep, psep) as f: f.write(p1); f.write(p2)\<close>, in
  append mode. \<open>old_bytes\<close> is what the file holds before.
\<close>

definition write_file :: "(double \<Rightarrow> string) \<Rightarrow> string \<Rightarrow> bool \<Rightarrow> world \<Rightarrow> double list list
    \<Rightarrow> error + world" where
  "write_file astype_str path app w points =
     (case PointWriter (Some path) [TAB] ''#'' app w of
        Inl e \<Rightarrow> Inl e
      | Inr (pw, w1) \<Rightarrow>
          (case PointWriter_write astype_str pw (Array2 points) of
             Inl e \<Rightarrow> Inl e
           | Inr pw1 \<Rightarrow>
               (case PointWriter_close pw1 w1 of
                  Inl e \<Rightarrow> Inl e
                | Inr (pw2, w2) \<Rightarrow> Inr w2)))"

definition append_two :: "(double \<Rightarrow> string) \<Rightarrow> string \<Rightarrow> string \<Rightarrow> string \<Rightarrow> world
    \<Rightarrow> double list list \<Rightarrow> double list list \<Rightarrow> error + world" where
  "append_two astype_str path sep psep w p1 p2 =
     (case PointWriter (Some path) sep psep True w of
        Inl e \<Rightarrow> Inl e
      | Inr (pw, w1) \<Rightarrow>
          (case PointWriter_write astype_str pw (Array2 p1) of
             Inl e \<Rightarrow> Inl e
           | Inr pw1 \<Rightarrow>
               (case PointWriter_write astype_str pw1 (Array2 p2) of
                  Inl e \<Rightarrow> Inl e
                | Inr pw2 \<Rightarrow>
                    (case PointWriter_close pw2 w1 of
                       Inl e \<Rightarrow> Inl e
                     | Inr (pw3, w2) \<Rightarrow> Inr w2))))"

definition old_bytes :: "world \<Rightarrow> string \<Rightarrow> byte list" where
  "old_bytes w path = (case file_bytes w path of None \<Rightarrow> [] | Some bs \<Rightarrow> bs)"

text \<open>A formatting and a parsing function on the patterns of 0.0 and 1.0, for the
  examples.\<close>

definition astype_example :: "double \<Rightarrow> string" where
  "astype_example x = (if x = 0 then ''0.0'' else if x = 0x3FF0000000000000 then ''1.0'' else ''nan'')"

definition np_double_example :: "string \<Rightarrow> double option" where
  "np_double_example s =
     (if s = ''0.0'' then Some 0 else if s = ''1.0'' then Some 0x3FF0000000000000 else None)"

text \<open>
  An element \<open>round_trips\<close> when numpy reads back the string it prints for it, and that
  string is not empty and has no white space in it.
\<close>

definition round_trips :: "(double \<Rightarrow> string) \<Rightarrow> (string \<Rightarrow> double option) \<Rightarrow> double \<Rightarrow> bool" where
  "round_trips astype_str np_double x \<longleftrightarrow>
     np_double (astype_str x) = Some x \<and> astype_str x \<noteq> [] \<and>
     (\<forall>c \<in> set (astype_str x). \<not> isspace c)"

subsection \<open>Notions for the statements about the discrepancy reader\<close>

text \<open>
  The names as the specification words them: the non-empty tokens of the header line,
  each without its first \<^verbatim>\<open>exclude_char\<close> characters and in lower case; and the values
  of a line: its non-empty tokens. A result \<open>matches\<close> when its keys are the names and
  the value of a name is the parsed token at the position of the name (the last
  position, for a name that occurs several times).
\<close>

definition header_names :: "discrepancyreader \<Rightarrow> string \<Rightarrow> string list" where
  "header_names dr header =
     map (\<lambda>name. lower (drop (nat (dr_exclude dr)) name))
       (nonempty_tokens (split_from (dr_sep dr) [] (strip header)))"

definition line_values :: "discrepancyreader \<Rightarrow> string \<Rightarrow> string list" where
  "line_values dr line = nonempty_tokens (split_from (dr_sep dr) [] (strip line))"

definition result_matches :: "(string \<Rightarrow> double option) \<Rightarrow> string list \<Rightarrow> string list
    \<Rightarrow> (string \<times> double) list \<Rightarrow> bool" where
  "result_matches np_double names toks r \<longleftrightarrow>
     fst ` set r = set names \<and>
     (\<forall>j < length names.
        (\<forall>j'. j < j' \<and> j' < length names \<longrightarrow> names ! j' \<noteq> names ! j) \<longrightarrow>
        map_of r (names ! j) = np_double (toks ! j))"

subsection \<open>Notions for the statements about discovery\<close>

text \<open>
  In one call without \<^verbatim>\<open>split_i_d\<close> every value of the dictionary is a set (\<open>flat\<close>);
  \<open>cur\<close> is the set held for a name, empty when the name is absent. A file is
  \<open>found\<close> when the test \<^verbatim>\<open>is_sampler\<close> accepts its path and \<^verbatim>\<open>int\<close> reads its
  dimension; \<open>scan_step\<close> is what one round of the loop then does to the dictionary.
\<close>

definition flat :: "samplers \<Rightarrow> bool" where
  "flat s \<longleftrightarrow> (\<forall>n v. (n, v) \<in> set s \<longrightarrow> (\<exists>S. v = Dims (PySet S)))"

definition cur :: "samplers \<Rightarrow> string \<Rightarrow> int set" where
  "cur s n = (case map_of s n of Some (Dims (PySet S)) \<Rightarrow> S | _ \<Rightarrow> {})"

definition found :: "world \<Rightarrow> string \<Rightarrow> bool" where
  "found w f \<longleftrightarrow> is_sampler w (path_join (get_samplers_dir w) f) \<and> sampler_dim_of f \<noteq> None"

definition scan_step :: "world \<Rightarrow> string \<Rightarrow> samplers \<Rightarrow> samplers" where
  "scan_step w f s =
     (if found w f
      then AList.update (sampler_name_of f)
             (Dims (PySet (insert (the (sampler_dim_of f)) (cur s (sampler_name_of f))))) s
      else s)"

definition sorted_value :: "sampler_value \<Rightarrow> sampler_value" where
  "sorted_value v = (case v of Dims d \<Rightarrow> Dims (py_sorted d) | Split m \<Rightarrow> Split m)"

text \<open>With \<^verbatim>\<open>split_i_d\<close>, the value every name turns out to have before the closing loop.\<close>

definition empty_split :: sampler_value where
  "empty_split = Split [(''d'', PySet {}), (''i'', PySet {})]"

definition all_empty_split :: "samplers \<Rightarrow> bool" where
  "all_empty_split s \<longleftrightarrow> (\<forall>n v. (n, v) \<in> set s \<longrightarrow> v = empty_split)"

text \<open>
  The test as the specification words it: the entry is executable, is not a directory,
  and its file name contains \<^verbatim>\<open>dd\<close> or \<^verbatim>\<open>di\<close>.
\<close>

definition spec_qualifies :: "world \<Rightarrow> string \<Rightarrow> bool" where
  "spec_qualifies w file \<longleftrightarrow>
     access_x w (path_join (get_samplers_dir w) file) \<and>
     \<not> path_isdir w (path_join (get_samplers_dir w) file) \<and>
     (contains ''dd'' file \<or> contains ''di'' file)"

section \<open>Configuration\<close>

text \<open>On an existing directory \<^verbatim>\<open>set_wdir\<close> changes nothing at all.\<close>

lemma set_wdir_existing: "path_exists w dir \<Longrightarrow> set_wdir dir w = (Inr (), w)"
  by (simp add: set_wdir_def)

text \<open>
  Claim C8. Calling \<^verbatim>\<open>set_wdir\<close> with an existing directory is claimed to set the
  working-directory global, so that later temporary files are placed in it. The code
  does not: after \<^verbatim>\<open>set_wdir("/data")\<close> on the existing directory \<^verbatim>\<open>/data\<close> the call
  returns normally, both globals are what they were, and the temporary file of a
  following \<^verbatim>\<open>sample\<close> or \<^verbatim>\<open>compute\<close> is still created under \<^verbatim>\<open>/tmp\<close>.
\<close>

theorem set_wdir_existing_keeps_wdir:
  "path_exists world0 ''/data'' \<and>
   fst (set_wdir ''/data'' world0) = Inr () \<and>
   UTK_WDIR (snd (set_wdir ''/data'' world0)) = ''/tmp'' \<and>
   UTK_DIR (snd (set_wdir ''/data'' world0)) = [] \<and>
   tmp_path (snd (set_wdir ''/data'' world0)) ''0f'' = ''/tmp/0f.dat''"
  by (simp add: set_wdir_def world0_def tmp_path_def path_join_def)

text \<open>
  Claim C9, as stated, fails for \<^verbatim>\<open>set_wdir\<close>: on the missing path \<^verbatim>\<open>/new\<close> it raises
  nothing and creates the directory.
\<close>

theorem set_wdir_missing_counterexample:
  "\<not> path_exists world0 ''/new'' \<and>
   fst (set_wdir ''/new'' world0) = Inr () \<and>
   path_exists (snd (set_wdir ''/new'' world0)) ''/new''"
  by (simp add: set_wdir_def os_mkdir_def world0_def)

text \<open>
  Claim C9, amended. For every path that does not exist, \<^verbatim>\<open>set_dir\<close> raises
  \<^verbatim>\<open>FileNotFoundError\<close> and leaves the whole state, the globals included, unchanged;
  \<^verbatim>\<open>set_wdir\<close> creates the directory instead, and raises only what \<^verbatim>\<open>os.mkdir\<close>
  raises, in which case the state is unchanged too.
\<close>

theorem missing_directory_configuration:
  assumes "\<not> path_exists w dir"
  shows "set_dir dir w = (Inl FileNotFoundError, w) \<and>
         (case mkdir_error w dir of
            None \<Rightarrow> fst (set_wdir dir w) = Inr () \<and>
                    path_exists (snd (set_wdir dir w)) dir \<and>
                    path_isdir (snd (set_wdir dir w)) dir
          | Some e \<Rightarrow> set_wdir dir w = (Inl e, w))"
  using assms by (simp add: set_dir_def set_wdir_def os_mkdir_def split: option.splits)

theorem missing_directory_configuration_witness:
  "\<not> path_exists world0 ''/new'' \<and>
   set_dir ''/new'' world0 = (Inl FileNotFoundError, world0) \<and>
   fst (set_wdir ''/new'' world0) = Inr () \<and>
   path_exists (snd (set_wdir ''/new'' world0)) ''/new''"
proof -
  have h: "\<not> path_exists world0 ''/new''" by (simp add: world0_def)
  have m: "mkdir_error world0 ''/new'' = None" by (simp add: world0_def)
  show ?thesis
    using h m missing_directory_configuration [OF h] by simp
qed


section \<open>Discovery of the samplers\<close>

subsection \<open>The loop without \<^verbatim>\<open>split_i_d\<close>\<close>

lemma flat_Nil: "flat []" by (simp add: flat_def)

lemma set_update_subset: "set (AList.update k v al) \<subseteq> insert (k, v) (set al)"
  by (induction al) auto

lemma flat_update:
  assumes "flat s"
  shows "flat (AList.update n (Dims (PySet X)) s)"
  unfolding flat_def
proof (intro allI impI)
  fix k v
  assume "(k, v) \<in> set (AList.update n (Dims (PySet X)) s)"
  then have "(k, v) = (n, Dims (PySet X)) \<or> (k, v) \<in> set s"
    using set_update_subset [of n "Dims (PySet X)" s] by blast
  then show "\<exists>S. v = Dims (PySet S)"
    using assms unfolding flat_def by blast
qed

lemma cur_update: "cur (AList.update n (Dims (PySet X)) s) m = (if m = n then X else cur s m)"
  unfolding cur_def update_conv' by simp

lemma flat_lookup:
  assumes "flat s" and "map_of s n = Some v"
  shows "v = Dims (PySet (cur s n))"
proof -
  from assms(2) have "(n, v) \<in> set s" by (rule map_of_SomeD)
  with assms(1) obtain S where "v = Dims (PySet S)" unfolding flat_def by blast
  with assms(2) show ?thesis by (simp add: cur_def)
qed

lemma try_body_flat:
  assumes "flat s"
  shows "snd (try_body False f s) =
         (case sampler_dim_of f of
            None \<Rightarrow> s
          | Some d \<Rightarrow> AList.update (sampler_name_of f)
                       (Dims (PySet (insert d (cur s (sampler_name_of f))))) s)"
proof (cases "sampler_dim_of f")
  case None
  then show ?thesis by (simp add: try_body_def)
next
  case (Some d)
  show ?thesis
  proof (cases "map_of s (sampler_name_of f)")
    case None
    then show ?thesis using Some
      by (simp add: try_body_def update_conv' cur_def)
  next
    case (Some v)
    with flat_lookup [OF assms Some] \<open>sampler_dim_of f = Some d\<close> show ?thesis
      by (simp add: try_body_def Let_def)
  qed
qed

lemma scan_files_Cons_flat:
  assumes "flat s"
  shows "scan_files False w (f # files) s = scan_files False w files (scan_step w f s)"
proof (cases "is_sampler w (path_join (get_samplers_dir w) f)")
  case False
  then show ?thesis by (simp add: scan_step_def found_def)
next
  case True
  then show ?thesis
    using try_body_flat [OF assms, of f]
    by (cases "sampler_dim_of f") (simp_all add: scan_step_def found_def)
qed

lemma flat_scan_step: "flat s \<Longrightarrow> flat (scan_step w f s)"
  by (simp add: scan_step_def flat_update)

lemma distinct_scan_step: "distinct (map fst s) \<Longrightarrow> distinct (map fst (scan_step w f s))"
  by (simp add: scan_step_def distinct_update)

lemma keys_scan_step:
  "fst ` set (scan_step w f s) = fst ` set s \<union> (if found w f then {sampler_name_of f} else {})"
  by (simp add: scan_step_def dom_update)

lemma cur_scan_step:
  "cur (scan_step w f s) n =
     cur s n \<union> (if found w f \<and> sampler_name_of f = n then {the (sampler_dim_of f)} else {})"
  by (simp add: scan_step_def cur_update)

lemma flat_scan_files: "flat s \<Longrightarrow> flat (scan_files False w files s)"
proof (induction files arbitrary: s)
  case Nil
  then show ?case by simp
next
  case (Cons f files)
  from Cons.IH [OF flat_scan_step [OF Cons.prems]] show ?case
    by (simp only: scan_files_Cons_flat [OF Cons.prems])
qed

lemma distinct_scan_files:
  "flat s \<Longrightarrow> distinct (map fst s) \<Longrightarrow> distinct (map fst (scan_files False w files s))"
proof (induction files arbitrary: s)
  case Nil
  then show ?case by simp
next
  case (Cons f files)
  from Cons.IH [OF flat_scan_step [OF Cons.prems(1)] distinct_scan_step [OF Cons.prems(2)]]
  show ?case by (simp only: scan_files_Cons_flat [OF Cons.prems(1)])
qed

lemma keys_scan_files:
  "flat s \<Longrightarrow> fst ` set (scan_files False w files s) =
     fst ` set s \<union> sampler_name_of ` {f \<in> set files. found w f}"
proof (induction files arbitrary: s)
  case Nil
  then show ?case by simp
next
  case (Cons f files)
  have "fst ` set (scan_files False w (f # files) s) =
        fst ` set (scan_step w f s) \<union> sampler_name_of ` {g \<in> set files. found w g}"
    using Cons.IH [OF flat_scan_step [OF Cons.prems]]
    by (simp only: scan_files_Cons_flat [OF Cons.prems])
  also have "\<dots> = fst ` set s \<union> sampler_name_of ` {g \<in> set (f # files). found w g}"
    unfolding keys_scan_step by auto
  finally show ?case .
qed

lemma cur_scan_files:
  "flat s \<Longrightarrow> cur (scan_files False w files s) n =
     cur s n \<union> {d. \<exists>f \<in> set files. found w f \<and> sampler_name_of f = n \<and> sampler_dim_of f = Some d}"
proof (induction files arbitrary: s)
  case Nil
  then show ?case by simp
next
  case (Cons f files)
  have "cur (scan_files False w (f # files) s) n =
        cur (scan_step w f s) n \<union>
        {d. \<exists>g \<in> set files. found w g \<and> sampler_name_of g = n \<and> sampler_dim_of g = Some d}"
    using Cons.IH [OF flat_scan_step [OF Cons.prems]]
    by (simp only: scan_files_Cons_flat [OF Cons.prems])
  also have "\<dots> = cur s n \<union>
        {d. \<exists>g \<in> set (f # files). found w g \<and> sampler_name_of g = n \<and> sampler_dim_of g = Some d}"
    unfolding cur_scan_step by (auto simp: found_def)
  finally show ?case .
qed

lemma flat_Cons: "flat ((n, v) # s) \<longleftrightarrow> (\<exists>S. v = Dims (PySet S)) \<and> flat s"
  unfolding flat_def by auto

lemma sort_entries_flat:
  "flat s \<Longrightarrow> sort_entries sort_flat s = Inr (map (\<lambda>(n, v). (n, sorted_value v)) s)"
proof (induction s)
  case Nil
  then show ?case by simp
next
  case (Cons a s)
  obtain n v where a: "a = (n, v)" by (cases a)
  from Cons.prems obtain S where v: "v = Dims (PySet S)" and fl: "flat s"
    unfolding a flat_Cons by blast
  show ?case using Cons.IH [OF fl] by (simp add: a v sorted_value_def)
qed

lemma get_samplers_flat:
  assumes "listdir w (get_samplers_dir w) = Inr files"
  shows "\<exists>r. get_samplers False w = Inr r \<and> distinct (map fst r) \<and>
             fst ` set r = sampler_name_of ` {f \<in> set files. found w f} \<and>
             (\<forall>n \<in> fst ` set r. map_of r n = Some (Dims (PyList (sorted_list_of_set
                 {d. \<exists>f \<in> set files. found w f \<and> sampler_name_of f = n \<and>
                       sampler_dim_of f = Some d}))))"
proof -
  let ?s = "scan_files False w files []"
  let ?r = "map (\<lambda>(n, v). (n, sorted_value v)) ?s"
  have fl: "flat ?s" by (rule flat_scan_files [OF flat_Nil])
  have r: "get_samplers False w = Inr ?r"
    using assms sort_entries_flat [OF fl] by (simp add: get_samplers_def)
  have fst_r: "map fst ?r = map fst ?s" by (induction ?s) auto
  have di: "distinct (map fst ?r)"
    unfolding fst_r using distinct_scan_files [OF flat_Nil, of w files] by simp
  have keys: "fst ` set ?r = sampler_name_of ` {f \<in> set files. found w f}"
  proof -
    have "fst ` set ?r = set (map fst ?r)" by (rule set_map [symmetric])
    also have "\<dots> = fst ` set ?s" unfolding fst_r by (rule set_map)
    finally show ?thesis using keys_scan_files [OF flat_Nil, of w files] by simp
  qed
  have vals: "map_of ?r n = Some (Dims (PyList (sorted_list_of_set
                 {d. \<exists>f \<in> set files. found w f \<and> sampler_name_of f = n \<and>
                       sampler_dim_of f = Some d})))" if "n \<in> fst ` set ?r" for n
  proof -
    from that have "n \<in> fst ` set ?s" using fst_r by (metis set_map)
    then obtain v where v: "map_of ?s n = Some v"
      by (metis weak_map_of_SomeI map_of_eq_None_iff not_None_eq)
    have v': "v = Dims (PySet (cur ?s n))" by (rule flat_lookup [OF fl v])
    have c: "cur ?s n = {d. \<exists>f \<in> set files. found w f \<and> sampler_name_of f = n \<and>
                       sampler_dim_of f = Some d}"
      using cur_scan_files [OF flat_Nil, of w files n] by (simp add: cur_def)
    have "map_of ?r n = map_option sorted_value (map_of ?s n)"
      by (simp add: map_of_map)
    then show ?thesis using v v' c by (simp add: sorted_value_def)
  qed
  show ?thesis using r di keys vals by blast
qed

lemma contains_two_append:
  "contains [x, y] (a @ b) \<longleftrightarrow>
     contains [x, y] a \<or> contains [x, y] b \<or> (a \<noteq> [] \<and> b \<noteq> [] \<and> last a = x \<and> hd b = y)"
proof (induction a)
  case Nil
  then show ?case by simp
next
  case (Cons c cs)
  show ?case
  proof (cases cs)
    case Nil
    then show ?thesis by (cases b) auto
  next
    case (Cons e es)
    with Cons.IH show ?thesis by auto
  qed
qed

lemma contains_samplers_path:
  assumes "\<not> contains [CHR ''d'', c] dir" and "c = CHR ''d'' \<or> c = CHR ''i''"
  shows "contains [CHR ''d'', c] (path_join (path_join dir ''samplers'') f)
         = contains [CHR ''d'', c] f"
proof (cases "f \<noteq> [] \<and> hd f = CHR ''/''")
  case True
  then show ?thesis by (simp add: path_join_def)
next
  case False
  have p: "path_join (path_join dir ''samplers'') f = path_join dir ''samplers'' @ ''/'' @ f"
    using False by (auto simp: path_join_def)
  show ?thesis unfolding p using assms False
    by (cases f) (auto simp: path_join_def contains_two_append)
qed

lemma found_spec_qualifies:
  assumes "\<not> contains ''dd'' (UTK_DIR w)" and "\<not> contains ''di'' (UTK_DIR w)"
  shows "found w f \<longleftrightarrow> spec_qualifies w f \<and> sampler_dim_of f \<noteq> None"
  using contains_samplers_path [OF assms(1), of f] contains_samplers_path [OF assms(2), of f]
  by (simp add: found_def is_sampler_def spec_qualifies_def get_samplers_dir_def)

text \<open>
  The name of a file is what precedes its last underscore (nothing, for a file without
  underscore), and its dimension is read from what follows, without the two final
  characters.
\<close>

lemma split_from_piece:
  "c \<notin> set x \<Longrightarrow> split_from [c] acc (x @ c # rest) = (acc @ x) # split_from [c] [] rest"
  by (induction x arbitrary: acc) auto

lemma split_from_last: "c \<notin> set x \<Longrightarrow> split_from [c] acc x = [acc @ x]"
  by (induction x arbitrary: acc) auto

lemma split_from_nonempty: "split_from sep acc s \<noteq> []"
  by (induction sep acc s rule: split_from.induct) auto

lemma join_Cons: "ys \<noteq> [] \<Longrightarrow> join sep (x # ys) = x @ sep @ join sep ys"
  by (cases ys) simp_all

lemma join_split_from: "join [c] (split_from [c] acc s) = acc @ s"
proof (induction s arbitrary: acc)
  case Nil
  then show ?case by simp
next
  case (Cons x s)
  show ?case
  proof (cases "x = c")
    case True
    then show ?thesis
      using Cons.IH [of "[]"] by (simp add: join_Cons split_from_nonempty)
  next
    case False
    then show ?thesis using Cons.IH [of "acc @ [x]"] by simp
  qed
qed

lemma split_from_snoc:
  "c \<notin> set b \<Longrightarrow> split_from [c] acc (a @ c # b) = split_from [c] acc a @ [b]"
  by (induction a arbitrary: acc) (auto simp: split_from_last)

lemma sampler_parts_underscore:
  assumes "CHR ''_'' \<notin> set b"
  shows "sampler_name_of (a @ ''_'' @ b) = a"
    and "sampler_dim_of (a @ ''_'' @ b) = py_int (take (length b - 2) b)"
  using split_from_snoc [OF assms, of "[]" a] join_split_from [of "CHR ''_''" "[]" a]
  by (simp_all add: sampler_name_of_def sampler_dim_of_def sampler_info_of_def)

lemma sampler_parts_plain:
  assumes "CHR ''_'' \<notin> set f"
  shows "sampler_name_of f = []"
    and "sampler_dim_of f = py_int (take (length f - 2) f)"
  using split_from_last [OF assms, of "[]"]
  by (simp_all add: sampler_name_of_def sampler_dim_of_def sampler_info_of_def)

text \<open>
  Claim C1, as stated, fails in two ways. The executable regular file \<^verbatim>\<open>foo_xdd\<close> has
  \<^verbatim>\<open>dd\<close> in its name, yet the result has no key \<^verbatim>\<open>foo\<close>, because \<^verbatim>\<open>int("x")\<close> raises
  and the \<^verbatim>\<open>except\<close> clause skips the file. And under the UTK directory \<^verbatim>\<open>/odd\<close> the
  executable regular file \<^verbatim>\<open>bar_2zz\<close>, whose name has neither \<^verbatim>\<open>dd\<close> nor \<^verbatim>\<open>di\<close>, gives the
  key \<^verbatim>\<open>bar\<close>, because the test looks for \<^verbatim>\<open>dd\<close> in the path, directory included.
\<close>

theorem get_samplers_unparsed_counterexample:
  "access_x (world_with [''foo_xdd'']) (path_join (get_samplers_dir (world_with [''foo_xdd''])) ''foo_xdd'') \<and>
   \<not> path_isdir (world_with [''foo_xdd'']) (path_join (get_samplers_dir (world_with [''foo_xdd''])) ''foo_xdd'') \<and>
   contains ''dd'' ''foo_xdd'' \<and>
   get_samplers False (world_with [''foo_xdd'']) = Inr [] \<and>
   \<not> contains ''dd'' ''bar_2zz'' \<and> \<not> contains ''di'' ''bar_2zz'' \<and>
   get_samplers False (world_in ''/odd'' [''bar_2zz'']) = Inr [(''bar'', Dims (PyList [2]))]"
  by (simp add: get_samplers_def world_with_def world_in_def get_samplers_dir_def path_join_def
      is_sampler_def try_body_def sampler_info_of_def sampler_name_of_def sampler_dim_of_def
      py_int_def int_strip_def int_isspace_def isdigit_def digits_value_def)

text \<open>
  Claim C1, amended. Let the UTK directory have neither \<^verbatim>\<open>dd\<close> nor \<^verbatim>\<open>di\<close> in its path
  (for any directory, the lemma \<open>get_samplers_flat\<close> above says the same of the test on
  the path). Then \<^verbatim>\<open>get_samplers\<close> without \<^verbatim>\<open>split_i_d\<close> returns a dictionary whose keys are the
  names of exactly those entries of the samplers directory that are executable, are
  not directories, have \<^verbatim>\<open>dd\<close> or \<^verbatim>\<open>di\<close> in their file name, and whose last piece
  after an underscore, without its two final characters, is read by \<^verbatim>\<open>int\<close>; the value
  of a name is the sorted list of the dimensions so read from the entries of that name.
\<close>

theorem get_samplers_merged:
  assumes "listdir w (get_samplers_dir w) = Inr files"
    and "\<not> contains ''dd'' (UTK_DIR w)" and "\<not> contains ''di'' (UTK_DIR w)"
  shows "\<exists>r. get_samplers False w = Inr r \<and> distinct (map fst r) \<and>
             fst ` set r =
               sampler_name_of ` {f \<in> set files. spec_qualifies w f \<and> sampler_dim_of f \<noteq> None} \<and>
             (\<forall>n \<in> fst ` set r. map_of r n = Some (Dims (PyList (sorted_list_of_set
                 {d. \<exists>f \<in> set files. spec_qualifies w f \<and> sampler_name_of f = n \<and>
                       sampler_dim_of f = Some d}))))"
proof -
  have eq: "found w f \<longleftrightarrow> spec_qualifies w f \<and> sampler_dim_of f \<noteq> None" for f
    by (rule found_spec_qualifies [OF assms(2) assms(3)])
  have eq': "(found w f \<and> sampler_name_of f = n \<and> sampler_dim_of f = Some d) \<longleftrightarrow>
             (spec_qualifies w f \<and> sampler_name_of f = n \<and> sampler_dim_of f = Some d)" for f n d
    unfolding eq by auto
  show ?thesis using get_samplers_flat [OF assms(1)] unfolding eq' unfolding eq .
qed

text \<open>The directory with the executables \<^verbatim>\<open>foo_2dd\<close> and \<^verbatim>\<open>foo_3dd\<close> gives
  \<^verbatim>\<open>{"foo": [2, 3]}\<close>.\<close>

theorem get_samplers_merged_witness:
  "listdir (world_with [''foo_2dd'', ''foo_3dd'']) (get_samplers_dir (world_with [''foo_2dd'', ''foo_3dd'']))
     = Inr [''foo_2dd'', ''foo_3dd''] \<and>
   \<not> contains ''dd'' (UTK_DIR (world_with [''foo_2dd'', ''foo_3dd''])) \<and>
   \<not> contains ''di'' (UTK_DIR (world_with [''foo_2dd'', ''foo_3dd''])) \<and>
   get_samplers False (world_with [''foo_2dd'', ''foo_3dd'']) = Inr [(''foo'', Dims (PyList [2, 3]))]"
proof -
  let ?w = "world_with [''foo_2dd'', ''foo_3dd'']"
  have l: "listdir ?w (get_samplers_dir ?w) = Inr [''foo_2dd'', ''foo_3dd'']"
    by (simp add: world_with_def get_samplers_dir_def path_join_def)
  have d1: "\<not> contains ''dd'' (UTK_DIR ?w)" by (simp add: world_with_def)
  have d2: "\<not> contains ''di'' (UTK_DIR ?w)" by (simp add: world_with_def)
  have v: "get_samplers False ?w = Inr [(''foo'', Dims (PyList [2, 3]))]"
    by (simp add: get_samplers_def world_with_def get_samplers_dir_def path_join_def is_sampler_def
      try_body_def sampler_info_of_def sampler_name_of_def sampler_dim_of_def py_int_def
      int_strip_def int_isspace_def isdigit_def digits_value_def)
  show ?thesis using l d1 d2 v get_samplers_merged [OF l d1 d2] by simp
qed

subsection \<open>The loop with \<^verbatim>\<open>split_i_d\<close>\<close>

text \<open>Whatever the directory holds, the call with \<^verbatim>\<open>split_i_d\<close> collects no dimension.\<close>

lemma all_empty_split_update:
  assumes "all_empty_split s"
  shows "all_empty_split (AList.update n empty_split s)"
  unfolding all_empty_split_def
proof (intro allI impI)
  fix k v
  assume "(k, v) \<in> set (AList.update n empty_split s)"
  then have "(k, v) = (n, empty_split) \<or> (k, v) \<in> set s"
    using set_update_subset [of n empty_split s] by blast
  then show "v = empty_split" using assms unfolding all_empty_split_def by blast
qed

lemma py_append_set: "py_append (PySet S) dim = Inl AttributeError"
  by simp

lemma try_body_split:
  assumes "all_empty_split s"
  shows "snd (try_body True f s) =
         (case sampler_dim_of f of
            None \<Rightarrow> s
          | Some d \<Rightarrow> AList.update (sampler_name_of f) empty_split s)"
proof (cases "sampler_dim_of f")
  case None
  then show ?thesis by (simp add: try_body_def)
next
  case (Some d)
  show ?thesis
  proof (cases "map_of s (sampler_name_of f)")
    case None
    then show ?thesis using Some
      by (simp add: try_body_def update_conv' empty_split_def append_under_def Let_def)
  next
    case (Some v)
    then have "(sampler_name_of f, v) \<in> set s" by (rule map_of_SomeD)
    with assms have v: "v = empty_split" unfolding all_empty_split_def by blast
    have u: "AList.update (sampler_name_of f) empty_split s = s"
      using Some v by (simp add: update_triv)
    show ?thesis using Some v \<open>sampler_dim_of f = Some d\<close> u
      by (simp add: try_body_def update_conv' empty_split_def append_under_def Let_def)
  qed
qed

lemma scan_files_split: "all_empty_split s \<Longrightarrow> all_empty_split (scan_files True w files s)"
proof (induction files arbitrary: s)
  case Nil
  then show ?case by simp
next
  case (Cons f files)
  have "all_empty_split (snd (try_body True f s))"
    unfolding try_body_split [OF Cons.prems]
    using Cons.prems by (cases "sampler_dim_of f") (simp_all add: all_empty_split_update)
  then show ?case using Cons.IH Cons.prems by (simp add: Let_def)
qed

lemma sort_entries_split:
  "all_empty_split s \<Longrightarrow>
   sort_entries sort_split s =
     Inr (map (\<lambda>(n, v). (n, Split [(''d'', PyList []), (''i'', PySet {})])) s)"
proof (induction s)
  case Nil
  then show ?case by simp
next
  case (Cons a s)
  obtain n v where a: "a = (n, v)" by (cases a)
  from Cons.prems have v: "v = empty_split" and r: "all_empty_split s"
    unfolding all_empty_split_def a by auto
  show ?case using Cons.IH [OF r] by (simp add: a v empty_split_def)
qed

lemma get_samplers_split_never_collects:
  assumes "listdir w (get_samplers_dir w) = Inr files"
  shows "\<exists>r. get_samplers True w = Inr r \<and>
             (\<forall>n v. (n, v) \<in> set r \<longrightarrow> v = Split [(''d'', PyList []), (''i'', PySet {})])"
proof -
  have e: "all_empty_split []" by (simp add: all_empty_split_def)
  have "get_samplers True w =
      Inr (map (\<lambda>(n, v). (n, Split [(''d'', PyList []), (''i'', PySet {})]))
             (scan_files True w files []))"
    using assms sort_entries_split [OF scan_files_split [OF e, of w files]]
    by (simp add: get_samplers_def)
  then show ?thesis by auto
qed

text \<open>
  Claim C6. With \<^verbatim>\<open>split_i_d\<close> the dimension of a file ending in \<^verbatim>\<open>dd\<close> is claimed to be
  collected under \<^verbatim>\<open>"d"\<close>. In the code \<^verbatim>\<open>samplers[name]["d"]\<close> is a set, the call
  \<^verbatim>\<open>.append(dim)\<close> raises \<^verbatim>\<open>AttributeError\<close>, and the \<^verbatim>\<open>except\<close> clause drops it: for
  the directory with the executable \<^verbatim>\<open>foo_2dd\<close> the result is
  \<^verbatim>\<open>{"foo": {"d": [], "i": set()}}\<close>, while the call without \<^verbatim>\<open>split_i_d\<close> finds the
  dimension 2.
\<close>

theorem get_samplers_split_collects_nothing:
  "get_samplers True (world_with [''foo_2dd'']) =
     Inr [(''foo'', Split [(''d'', PyList []), (''i'', PySet {})])] \<and>
   get_samplers False (world_with [''foo_2dd'']) = Inr [(''foo'', Dims (PyList [2]))]"
  by (simp add: get_samplers_def world_with_def get_samplers_dir_def path_join_def is_sampler_def
      try_body_def sampler_info_of_def sampler_name_of_def sampler_dim_of_def py_int_def
      int_strip_def int_isspace_def isdigit_def digits_value_def endswith_def append_under_def)


section \<open>Reading point files\<close>

subsection \<open>The choice of the format\<close>

lemma rfind_append_notin:
  assumes "c \<notin> set t"
  shows "rfind c (s @ c # t) = int (length s)"
proof -
  have "dropWhile (\<lambda>x. x \<noteq> c) (rev t @ c # rev s) = c # rev s"
    using assms by (simp add: dropWhile_append)
  then show ?thesis by (simp add: rfind_def)
qed

lemma rfind_append_without:
  assumes "c \<notin> set t"
  shows "rfind c (s @ t) = rfind c s"
proof -
  have "dropWhile (\<lambda>x. x \<noteq> c) (rev t @ rev s) = dropWhile (\<lambda>x. x \<noteq> c) (rev s)"
    using assms by (simp add: dropWhile_append)
  then show ?thesis by (simp add: rfind_def)
qed

lemma rfind_less: "rfind c s < int (length s)"
proof -
  have "length (dropWhile (\<lambda>x. x \<noteq> c) (rev s)) \<le> length (rev s)"
    by (rule length_dropWhile_le)
  then show ?thesis by (simp add: rfind_def)
qed

lemma rfind_lower: "- 1 \<le> rfind c s"
  by (simp add: rfind_def)

lemma drop_rfind_basename: "drop (nat (rfind CHR ''/'' s + 1)) s = basename s"
proof -
  let ?P = "\<lambda>x. x \<noteq> CHR ''/''"
  have "s = rev (takeWhile ?P (rev s) @ dropWhile ?P (rev s))"
    by (simp only: takeWhile_dropWhile_id rev_rev_ident)
  then have s: "s = rev (dropWhile ?P (rev s)) @ rev (takeWhile ?P (rev s))"
    by (simp only: rev_append)
  have k: "nat (rfind CHR ''/'' s + 1) = length (rev (dropWhile ?P (rev s)))"
    by (simp add: rfind_def)
  have "drop (nat (rfind CHR ''/'' s + 1)) (rev (dropWhile ?P (rev s)) @ rev (takeWhile ?P (rev s)))
        = rev (takeWhile ?P (rev s))"
    unfolding k by simp
  with s show ?thesis by (simp add: basename_def)
qed

lemma splitext_dat:
  "splitext (s @ ''.dat'') =
     (if list_ex (\<lambda>c. c \<noteq> CHR ''.'') (basename s) then (s, ''.dat'') else (s @ ''.dat'', []))"
proof -
  have dot: "rfind CHR ''.'' (s @ ''.dat'') = int (length s)"
    using rfind_append_notin [of "CHR ''.''" "''dat''" s] by simp
  have sep: "rfind CHR ''/'' (s @ ''.dat'') = rfind CHR ''/'' s"
    by (rule rfind_append_without) simp
  have lt: "rfind CHR ''/'' s < int (length s)" by (rule rfind_less)
  have lo: "- 1 \<le> rfind CHR ''/'' s" by (rule rfind_lower)
  define k where "k = nat (rfind CHR ''/'' s + 1)"
  have kle: "k \<le> length s" using lt lo by (simp add: k_def)
  have klen: "nat (int (length s) - (rfind CHR ''/'' s + 1)) = length s - k"
    using lt lo by (simp add: k_def)
  have dk: "drop k (s @ ''.dat'') = drop k s @ ''.dat''" using kle by simp
  have lk: "length s - k = length (drop k s)" by simp
  have "take (length s - k) (drop k (s @ ''.dat'')) = drop k s"
    unfolding dk lk by simp
  then have slice: "take (length s - k) (drop k (s @ ''.dat'')) = basename s"
    using drop_rfind_basename [of s] by (simp only: k_def)
  show ?thesis
    unfolding splitext_def Let_def dot sep klen k_def [symmetric] slice
    using lt by simp
qed

lemma has_dat_extension_splitext: "snd (splitext p) = ''.dat'' \<longleftrightarrow> has_dat_extension p"
proof
  assume a: "snd (splitext p) = ''.dat''"
  define k where "k = nat (rfind CHR ''.'' p)"
  have "snd (splitext p) = [] \<or> snd (splitext p) = drop k p"
    by (simp add: splitext_def Let_def k_def)
  with a have d: "drop k p = ''.dat''" by auto
  then have "length (drop k p) = 4" by simp
  then have k: "k = length p - 4" and len: "4 \<le> length p" by auto
  have p: "p = take (length p - 4) p @ ''.dat''"
    using d unfolding k by (metis append_take_drop_id)
  have "list_ex (\<lambda>c. c \<noteq> CHR ''.'') (basename (take (length p - 4) p))"
  proof (rule ccontr)
    assume "\<not> ?thesis"
    then have "snd (splitext (take (length p - 4) p @ ''.dat'')) = []"
      by (simp add: splitext_dat)
    with p a show False by simp
  qed
  with len d k show "has_dat_extension p" by (simp add: has_dat_extension_def)
next
  assume h: "has_dat_extension p"
  then have p: "p = take (length p - 4) p @ ''.dat''"
    unfolding has_dat_extension_def by (metis append_take_drop_id)
  from h have "list_ex (\<lambda>c. c \<noteq> CHR ''.'') (basename (take (length p - 4) p))"
    by (simp add: has_dat_extension_def)
  then have "snd (splitext (take (length p - 4) p @ ''.dat'')) = ''.dat''"
    by (simp add: splitext_dat)
  with p show "snd (splitext p) = ''.dat''" by simp
qed

text \<open>
  Claim C10. For every file path, \<^verbatim>\<open>PointReader.read\<close> returns what \<^verbatim>\<open>read_text\<close>
  returns on that path exactly when the extension of the path is \<^verbatim>\<open>.dat\<close>, and what
  \<^verbatim>\<open>read_bin\<close> returns on it for every other extension, or none.
\<close>

theorem read_by_extension:
  "read np_double uninit pr w filepath =
     (if has_dat_extension filepath then read_text np_double uninit pr w filepath
      else read_bin pr w filepath)"
  by (simp add: read_def has_dat_extension_splitext)

theorem read_by_extension_witness:
  "has_dat_extension ''out/pts.dat'' \<and>
   read (\<lambda>s. None) (\<lambda>i j. 0) (PointReader 1 2) world0 ''out/pts.dat''
     = read_text (\<lambda>s. None) (\<lambda>i j. 0) (PointReader 1 2) world0 ''out/pts.dat'' \<and>
   \<not> has_dat_extension ''out/pts.bin'' \<and>
   read (\<lambda>s. None) (\<lambda>i j. 0) (PointReader 1 2) world0 ''out/pts.bin''
     = read_bin (PointReader 1 2) world0 ''out/pts.bin'' \<and>
   \<not> has_dat_extension ''out/.dat'' \<and>
   read (\<lambda>s. None) (\<lambda>i j. 0) (PointReader 1 2) world0 ''out/.dat''
     = read_bin (PointReader 1 2) world0 ''out/.dat''"
proof -
  have a: "has_dat_extension ''out/pts.dat''" by (simp add: has_dat_extension_def basename_def)
  have b: "\<not> has_dat_extension ''out/pts.bin''" by (simp add: has_dat_extension_def basename_def)
  have c: "\<not> has_dat_extension ''out/.dat''" by (simp add: has_dat_extension_def basename_def)
  show ?thesis
    using a b c
      read_by_extension [of "\<lambda>s. None" "\<lambda>i j. 0" "PointReader 1 2" world0 "''out/pts.dat''"]
      read_by_extension [of "\<lambda>s. None" "\<lambda>i j. 0" "PointReader 1 2" world0 "''out/pts.bin''"]
      read_by_extension [of "\<lambda>s. None" "\<lambda>i j. 0" "PointReader 1 2" world0 "''out/.dat''"]
    by simp
qed

subsection \<open>The binary format\<close>

lemma byte_step:
  fixes x :: "64 word"
  shows "push_bit 8 (drop_bit 8 x) OR ucast (ucast x :: 8 word) = x"
proof (rule bit_word_eqI)
  fix k
  assume "k < LENGTH(64)"
  then show "bit (push_bit 8 (drop_bit 8 x) OR ucast (ucast x :: 8 word)) k \<longleftrightarrow> bit x k"
    by (cases "k < 8") (auto simp: bit_simps)
qed

lemma be_prefix:
  "m \<le> 8 \<Longrightarrow>
   foldl (\<lambda>acc b. push_bit 8 acc OR ucast b) (0 :: 64 word)
     (map (\<lambda>k. ucast (drop_bit (8 * (7 - k)) v) :: 8 word) [0..<m])
   = drop_bit (8 * (8 - m)) v"
proof (induction m)
  case 0
  show ?case by (simp add: drop_bit_eq_zero_iff_not_bit_last flip: drop_bit_eq_div)
next
  case (Suc m)
  then have m: "m \<le> 8" and m7: "m \<le> 7" by simp_all
  have e: "8 * (8 - m) = 8 + 8 * (7 - m)" using m7 by simp
  have e': "8 * (8 - Suc m) = 8 * (7 - m)" by simp
  show ?case
    using Suc.IH [OF m] byte_step [of "drop_bit (8 * (7 - m)) v"]
    by (simp add: e e' drop_bit_drop_bit add.commute)
qed

lemma be_double_be_bytes: "be_double (be_bytes v) = v"
  using be_prefix [of 8 v] by (simp add: be_double_def be_bytes_def)

lemma length_be_bytes: "length (be_bytes v) = 8"
  by (simp add: be_bytes_def)

lemma length_concat_be_bytes: "length (concat (map be_bytes vs)) = 8 * length vs"
  by (induction vs) (simp_all add: length_be_bytes)

lemma chunk_concat_be_bytes:
  "k < length vs \<Longrightarrow> take 8 (drop (8 * k) (concat (map be_bytes vs))) = be_bytes (vs ! k)"
proof (induction vs arbitrary: k)
  case Nil
  then show ?case by simp
next
  case (Cons v vs)
  show ?case
  proof (cases k)
    case 0
    then show ?thesis by (simp add: length_be_bytes)
  next
    case (Suc j)
    with Cons.prems have j: "j < length vs" by simp
    have "drop (8 * Suc j) (be_bytes v @ concat (map be_bytes vs))
          = drop (8 * j) (concat (map be_bytes vs))"
      by (simp add: length_be_bytes)
    with Cons.IH [OF j] Suc show ?thesis by simp
  qed
qed

lemma fromfile_be_doubles_encoded:
  assumes "length header = 4"
  shows "fromfile_be_doubles (header @ concat (map be_bytes vs)) = vs"
proof -
  have "map (\<lambda>k. be_double (take 8 (drop (8 * k) (concat (map be_bytes vs))))) [0..<length vs]
        = map (\<lambda>k. vs ! k) [0..<length vs]"
    by (rule map_cong [OF refl]) (simp add: chunk_concat_be_bytes be_double_be_bytes)
  then show ?thesis
    using assms by (simp add: fromfile_be_doubles_def length_concat_be_bytes map_nth)
qed

lemma take_drop_nth:
  "k + d \<le> length xs \<Longrightarrow> take d (drop k xs) = map (\<lambda>j. xs ! (k + j)) [0..<d]"
  by (rule nth_equalityI) simp_all

lemma reshape_rows:
  assumes "length xs = n * d"
  shows "reshape n d xs = Inr (map (\<lambda>i. map (\<lambda>j. xs ! (i * d + j)) [0..<d]) [0..<n])"
proof -
  have "take d (drop (i * d) xs) = map (\<lambda>j. xs ! (i * d + j)) [0..<d]" if "i < n" for i
  proof (rule take_drop_nth)
    from that have "Suc i \<le> n" by simp
    then have "Suc i * d \<le> n * d" by (rule mult_le_mono1)
    then show "i * d + d \<le> length xs" using assms by simp
  qed
  then have "map (\<lambda>i. take d (drop (i * d) xs)) [0..<n]
             = map (\<lambda>i. map (\<lambda>j. xs ! (i * d + j)) [0..<d]) [0..<n]"
    by (intro map_cong [OF refl]) simp
  then show ?thesis using assms by (simp add: reshape_def)
qed

text \<open>
  Claim C5. For a binary point file made of a header of four bytes followed by exactly
  \<open>n * d\<close> doubles in big-endian byte order, \<^verbatim>\<open>PointReader(n, d).read_bin\<close> skips the
  four bytes, reads the rest as big-endian doubles, and returns them as \<open>n\<close> rows of
  \<open>d\<close> values, row by row.
\<close>

theorem read_bin_big_endian:
  assumes "file_bytes w filepath = Some (header @ concat (map be_bytes vs))"
    and "length header = 4"
    and "length vs = pr_n pr * pr_d pr"
  shows "read_bin pr w filepath =
           Inr (map (\<lambda>i. map (\<lambda>j. vs ! (i * pr_d pr + j)) [0..<pr_d pr]) [0..<pr_n pr])"
  using assms(1) fromfile_be_doubles_encoded [OF assms(2), of vs] reshape_rows [OF assms(3)]
  by (simp add: read_bin_def)

theorem read_bin_big_endian_witness:
  "file_bytes (world_with_file ''pts.bin''
       [0, 0, 0, 1, 0x3F, 0xF0, 0, 0, 0, 0, 0, 0, 0x40, 0, 0, 0, 0, 0, 0, 1]) ''pts.bin''
     = Some ([0, 0, 0, 1] @ concat (map be_bytes [0x3FF0000000000000, 0x4000000000000001])) \<and>
   length [0, 0, 0, 1 :: byte] = 4 \<and>
   length [0x3FF0000000000000, 0x4000000000000001 :: double]
     = pr_n (PointReader 1 2) * pr_d (PointReader 1 2) \<and>
   read_bin (PointReader 1 2) (world_with_file ''pts.bin''
       [0, 0, 0, 1, 0x3F, 0xF0, 0, 0, 0, 0, 0, 0, 0x40, 0, 0, 0, 0, 0, 0, 1]) ''pts.bin''
     = Inr [[0x3FF0000000000000, 0x4000000000000001]]"
proof -
  let ?w = "world_with_file ''pts.bin''
       [0, 0, 0, 1, 0x3F, 0xF0, 0, 0, 0, 0, 0, 0, 0x40, 0, 0, 0, 0, 0, 0, 1]"
  have a: "file_bytes ?w ''pts.bin''
     = Some ([0, 0, 0, 1] @ concat (map be_bytes [0x3FF0000000000000, 0x4000000000000001]))"
    by (simp add: world_with_file_def be_bytes_def upt_rec drop_bit_eq_div)
  have b: "length [0, 0, 0, 1 :: byte] = 4" by simp
  have c: "length [0x3FF0000000000000, 0x4000000000000001 :: double]
     = pr_n (PointReader 1 2) * pr_d (PointReader 1 2)" by (simp add: PointReader_def)
  show ?thesis
    using a b c read_bin_big_endian [OF a b c] by (simp add: PointReader_def upt_rec)
qed

section \<open>Text files\<close>

text \<open>Encoding is additive, and decoding reads back what encoding wrote.\<close>

lemma utf8_encode_append: "utf8_encode (a @ b) = utf8_encode a @ utf8_encode b"
  by (simp add: utf8_encode_def)

lemma utf8_encode_Cons: "utf8_encode (c # s) = utf8_encode_char c @ utf8_encode s"
  by (simp add: utf8_encode_def)

lemma unat_byte_of_nat: "k < 256 \<Longrightarrow> unat (of_nat k :: byte) = k"
  by (simp add: unat_of_nat)

lemma utf8_chunk_char:
  "utf8_chunk (utf8_encode_char c @ bs) =
     (case utf8_chunk bs of Inl e \<Rightarrow> Inl e | Inr (s, pending) \<Rightarrow> Inr (c # s, pending))"
proof -
  define k where "k = (of_char c :: nat)"
  have k: "k < 256" by (simp add: k_def)
  have c: "char_of k = c" by (simp add: k_def)
  show ?thesis
  proof (cases "k < 128")
    case True
    then have e: "utf8_encode_char c = [of_nat k]" by (simp add: utf8_encode_char_def k_def)
    have u: "unat (of_nat k :: byte) = k" using k by (rule unat_byte_of_nat)
    show ?thesis using True c by (simp add: e utf8_seq_of_def u split: sum.splits prod.splits)
  next
    case False
    then have e: "utf8_encode_char c = [of_nat (192 + k div 64), of_nat (128 + k mod 64)]"
      by (simp add: utf8_encode_char_def k_def Let_def)
    have u1: "unat (of_nat (192 + k div 64) :: byte) = 192 + k div 64"
      using k by (intro unat_byte_of_nat) simp
    have u2: "unat (of_nat (128 + k mod 64) :: byte) = 128 + k mod 64"
      by (intro unat_byte_of_nat) simp
    have r: "192 + k div 64 \<le> 223" "194 \<le> 192 + k div 64" using k False by simp_all
    have cp: "k div 64 * 64 + k mod 64 = k" by simp
    have m: "k mod 64 \<le> 63"
    proof -
      have "k mod 64 < 64" by (rule mod_less_divisor) simp
      then show ?thesis by simp
    qed
    have nk: "\<not> 256 \<le> k" using k by simp
    show ?thesis using False c r u1 u2 m nk
      by (simp add: e utf8_seq_of_def is_cont_def cp split: sum.splits prod.splits)
  qed
qed

lemma utf8_chunk_encode: "utf8_chunk (utf8_encode s) = Inr (s, [])"
  by (induction s) (simp_all add: utf8_encode_Cons utf8_chunk_char, simp add: utf8_encode_def)

lemma utf8_decode_encode: "utf8_decode (utf8_encode s) = Inr s"
  by (simp add: utf8_decode_def utf8_chunk_encode)


lemma utf8_encode_Nil: "utf8_encode [] = []"
  by (simp add: utf8_encode_def)

lemma utf8_encode_LF: "utf8_encode [LF] = [0x0A]"
  by (simp add: utf8_encode_def utf8_encode_char_def)

lemma utf8_encode_ends_LF:
  assumes "t \<noteq> []" and "last t = LF"
  shows "utf8_encode t \<noteq> []" and "last (utf8_encode t) = 0x0A"
proof -
  have "t = butlast t @ [LF]" using assms by (metis append_butlast_last_id)
  then have "utf8_encode t = utf8_encode (butlast t) @ [0x0A]"
    by (metis utf8_encode_append utf8_encode_LF)
  then show "utf8_encode t \<noteq> []" and "last (utf8_encode t) = 0x0A" by simp_all
qed

section \<open>Writing point files\<close>

lemma f_write_at_end:
  assumes "at_end h"
  shows "raw (f_write s h) = raw h @ utf8_encode s" and "at_end (f_write s h)"
    and "h_path (f_write s h) = h_path h"
  using assms by (simp_all add: f_write_def at_end_def Let_def)

lemma write_points_at_end:
  "at_end h \<Longrightarrow>
   raw (write_points a pw h ps) = raw h @ utf8_encode (block_text a (pw_sep pw) ps) \<and>
   at_end (write_points a pw h ps) \<and> h_path (write_points a pw h ps) = h_path h"
proof (induction ps arbitrary: h)
  case Nil
  then show ?case by (simp add: block_text_def utf8_encode_def)
next
  case (Cons p ps)
  let ?h = "f_write [LF] (f_write (join (pw_sep pw) (map a p)) h)"
  have e: "at_end ?h" by (intro f_write_at_end(2) Cons.prems)
  have c: "raw ?h = raw h @ utf8_encode (join (pw_sep pw) (map a p) @ [LF])"
    by (simp add: f_write_at_end(1) f_write_at_end(2) Cons.prems utf8_encode_append)
  have p: "h_path ?h = h_path h"
    by (simp add: f_write_at_end(3) f_write_at_end(2) Cons.prems)
  from Cons.IH [OF e] show ?case by (simp add: c p block_text_def utf8_encode_def)
qed

lemma utf8_chunk_single:
  "unat b < 128 \<Longrightarrow> utf8_chunk [b] = Inr ([char_of (unat b)], [])"
  by (simp add: utf8_seq_of_def)

lemma byte_char_eq:
  assumes "unat (b :: byte) < 128"
  shows "(char_of (unat b) :: char) = CR \<longleftrightarrow> b = 0x0D"
    and "(char_of (unat b) :: char) = LF \<longleftrightarrow> b = 0x0A"
proof -
  let ?c = "char_of (unat b) :: char"
  have oc: "(of_char ?c :: nat) = unat b" using assms by simp
  have "?c = CR \<longleftrightarrow> (of_char ?c :: nat) = of_char CR" by (simp only: of_char_eq_iff)
  also have "\<dots> \<longleftrightarrow> unat b = unat (0x0D :: byte)" unfolding oc by simp
  also have "\<dots> \<longleftrightarrow> b = 0x0D" by (simp only: word_unat_eq_iff)
  finally show "?c = CR \<longleftrightarrow> b = 0x0D" .
  have "?c = LF \<longleftrightarrow> (of_char ?c :: nat) = of_char LF" by (simp only: of_char_eq_iff)
  also have "\<dots> \<longleftrightarrow> unat b = unat (0x0A :: byte)" unfolding oc by simp
  also have "\<dots> \<longleftrightarrow> b = 0x0A" by (simp only: word_unat_eq_iff)
  finally show "?c = LF \<longleftrightarrow> b = 0x0A" .
qed

lemma last_char_newline:
  assumes "unat (b :: byte) < 128"
  shows "universal_newlines [char_of (unat b)] \<noteq> [LF] \<longleftrightarrow> \<not> (b = 0x0A \<or> b = 0x0D)"
proof (cases "(char_of (unat b) :: char) = CR")
  case True
  then show ?thesis using byte_char_eq(1) [OF assms] by simp
next
  case False
  then show ?thesis using byte_char_eq [OF assms] by simp
qed

lemma f_read1_one:
  assumes "drop (pos g) (raw g) = [b]" and "unat b < 128"
  shows "f_read1 g = Inr (universal_newlines [char_of (unat b)], g\<lparr>pos := pos g + 1\<rparr>)"
proof -
  let ?c = "char_of (unat b) :: char"
  have w: "length (utf8_encode_char ?c) = 1"
    using assms(2) by (simp add: utf8_encode_char_def Let_def)
  show ?thesis
  proof (cases "?c = CR")
    case True
    then show ?thesis
      by (simp add: f_read1_def assms(1) utf8_chunk_single [OF assms(2)] del: utf8_chunk.simps)
  next
    case False
    then show ?thesis
      by (simp add: f_read1_def assms(1) utf8_chunk_single [OF assms(2)] w del: utf8_chunk.simps)
  qed
qed

lemma f_read1_last:
  assumes "raw h \<noteq> []" and "unat (last (raw h)) < 128"
  shows "f_read1 (f_seek (length (raw h) - 1) h) =
           Inr (universal_newlines [char_of (unat (last (raw h)))], h\<lparr>pos := length (raw h)\<rparr>)"
proof -
  let ?g = "f_seek (length (raw h) - 1) h"
  have len: "0 < length (raw h)" using assms(1) by simp
  have "drop (length (raw h) - 1) (raw h) = [last (raw h)]"
    using assms(1) by (metis append_butlast_last_id append_eq_conv_conj length_butlast)
  then have rest: "drop (pos ?g) (raw ?g) = [last (raw h)]" by (simp add: f_seek_def)
  have p: "?g\<lparr>pos := pos ?g + 1\<rparr> = h\<lparr>pos := length (raw h)\<rparr>"
    using len by (simp add: f_seek_def)
  show ?thesis unfolding f_read1_one [OF rest assms(2)] p ..
qed

lemma process_header_ok:
  assumes "pw_append pw" and "at_end h" and "raw h \<noteq> []" and "unat (last (raw h)) < 128"
  shows "process_header pw h =
           Inr (f_write [LF] (f_write (pointset_sep pw)
             (if last (raw h) = 0x0A \<or> last (raw h) = 0x0D then h else f_write [LF] h)))"
proof -
  from assms(2) have p: "pos h = length (raw h)" by (simp add: at_end_def)
  from assms(3) have len: "length (raw h) \<noteq> 0" by simp
  have hh: "f_seek (length (raw h)) (h\<lparr>pos := length (raw h)\<rparr>) = h"
    using p by (simp add: f_seek_def)
  note n = last_char_newline [OF assms(4)]
  show ?thesis
    unfolding process_header_def f_tell_def Let_def p
    using assms(1) len
    by (simp only: if_True if_False f_read1_last [OF assms(3,4)] sum.case prod.case hh n)
      (simp)
qed

lemma process_header_at_end:
  assumes "at_end h" and "raw h = [] \<or> unat (last (raw h)) < 128"
  shows "\<exists>h'. process_header pw h = Inr h' \<and> at_end h' \<and> h_path h' = h_path h \<and>
           raw h' = raw h @ utf8_encode
             (if pw_append pw then header_text (pointset_sep pw) (raw h) else [])"
proof (cases "pw_append pw \<and> raw h \<noteq> []")
  case False
  then have "process_header pw h = Inr h"
    using assms(1) by (auto simp: process_header_def f_tell_def at_end_def)
  then show ?thesis using False assms(1) by (auto simp: header_text_def utf8_encode_def)
next
  case True
  then have a: "pw_append pw" and c: "raw h \<noteq> []" by simp_all
  with assms(2) have l: "unat (last (raw h)) < 128" by simp
  show ?thesis
    unfolding process_header_ok [OF a assms(1) c l]
    using a c assms(1)
    by (simp add: header_text_def f_write_at_end utf8_encode_append utf8_encode_Nil)
qed

lemma write_array2:
  assumes "pw_file pw = Some h" and "at_end h" and "raw h = [] \<or> unat (last (raw h)) < 128"
  shows "\<exists>h'. PointWriter_write a pw (Array2 ps) = Inr (pw\<lparr>pw_file := Some h'\<rparr>) \<and>
           at_end h' \<and> h_path h' = h_path h \<and>
           raw h' = raw h @ utf8_encode
             ((if pw_append pw then header_text (pointset_sep pw) (raw h) else [])
              @ block_text a (pw_sep pw) ps)"
proof -
  from process_header_at_end [OF assms(2,3), of pw] obtain h1
    where h1: "process_header pw h = Inr h1" and e1: "at_end h1" and p1: "h_path h1 = h_path h"
      and r1: "raw h1 = raw h @ utf8_encode
             (if pw_append pw then header_text (pointset_sep pw) (raw h) else [])" by blast
  let ?h' = "write_points a pw h1 ps"
  note w = write_points_at_end [OF e1, of a pw ps]
  have "PointWriter_write a pw (Array2 ps) = Inr (pw\<lparr>pw_file := Some ?h'\<rparr>)"
    using assms(1) h1 by (simp add: PointWriter_write_def)
  moreover have "at_end ?h'" using w by blast
  moreover have "h_path ?h' = h_path h" using w p1 by simp
  moreover have "raw ?h' = raw h @ utf8_encode
             ((if pw_append pw then header_text (pointset_sep pw) (raw h) else [])
              @ block_text a (pw_sep pw) ps)"
    using w r1 by (simp add: utf8_encode_append)
  ultimately show ?thesis by blast
qed


lemma block_text_last:
  "ps \<noteq> [] \<Longrightarrow> block_text a sep ps \<noteq> [] \<and> last (block_text a sep ps) = LF"
  by (induction ps rule: rev_induct) (simp_all add: block_text_def)

lemma header_text_last:
  "c \<noteq> [] \<Longrightarrow> header_text psep c \<noteq> [] \<and> last (header_text psep c) = LF"
  by (simp add: header_text_def)

lemma PointWriter_opened:
  assumes "open_error w path = None"
  shows "PointWriter (Some path) sep psep app w =
           Inr (\<lparr>pw_sep = sep, pointset_sep = psep, pw_append = app,
                 pw_file = Some \<lparr>h_path = path, raw = (if app then old_bytes w path else []),
                                 pos = length (if app then old_bytes w path else []),
                                 appending = app\<rparr>\<rparr>,
                w\<lparr>path_exists := (path_exists w)(path := True),
                  file_bytes := (file_bytes w)(path \<mapsto> (if app then old_bytes w path else []))\<rparr>)"
  using assms
  by (simp add: PointWriter_def PointWriter_open_def open_file_def old_bytes_def Let_def)

text \<open>
  Claim C4, as stated, fails in two ways. When the first point set has no point and the
  file is new, nothing is written for it, the file is still empty at the second call,
  and the second block follows without any sentinel line. And on a file that ends in a
  character of several bytes (here \<^verbatim>\<open>a\<close> and U+00E9) the first call raises
  \<^verbatim>\<open>UnicodeDecodeError\<close>, because \<^verbatim>\<open>seek(current - 1)\<close> lands inside that character.
\<close>

theorem append_empty_first_counterexample:
  "(case append_two astype_example ''p'' [TAB] ''#'' world0 [] [[0x3FF0000000000000]] of
      Inl e \<Rightarrow> None | Inr w' \<Rightarrow> file_bytes w' ''p'') = Some (utf8_encode (''1.0'' @ [LF])) \<and>
   (case append_two astype_example ''p'' [TAB] ''#'' (world_with_file ''p'' [0x61, 0xC3, 0xA9])
           [[0x3FF0000000000000]] [[0]] of
      Inl e \<Rightarrow> Some e | Inr w' \<Rightarrow> None) = Some UnicodeDecodeError"
  by code_simp

text \<open>
  Claim C4, amended. The file is empty or ends in a character of one byte, and either
  the first point set has a point or the file is not empty. Two point sets are then
  written in sequence by a \<^verbatim>\<open>PointWriter\<close> in append mode, and the writer is closed. The
  file then holds its former bytes, the header of the first block (nothing when the
  file was empty, otherwise the sentinel line, after a line feed when the file did not
  end in one), the first block, exactly one sentinel line, and the second block.
\<close>

theorem append_two_pointsets:
  assumes "open_error w path = None"
    and "old_bytes w path = [] \<or> unat (last (old_bytes w path)) < 128"
    and "p1 \<noteq> [] \<or> old_bytes w path \<noteq> []"
  shows "\<exists>w'. append_two a path sep psep w p1 p2 = Inr w' \<and>
           file_bytes w' path =
             Some (old_bytes w path
                   @ utf8_encode (header_text psep (old_bytes w path) @ block_text a sep p1
                                  @ psep @ [LF] @ block_text a sep p2))"
proof -
  let ?c = "old_bytes w path"
  let ?h = "\<lparr>h_path = path, raw = ?c, pos = length ?c, appending = True\<rparr>"
  let ?pw = "\<lparr>pw_sep = sep, pointset_sep = psep, pw_append = True, pw_file = Some ?h\<rparr>"
  let ?w1 = "w\<lparr>path_exists := (path_exists w)(path := True),
               file_bytes := (file_bytes w)(path \<mapsto> ?c)\<rparr>"
  let ?t1 = "header_text psep ?c @ block_text a sep p1"
  have o: "PointWriter (Some path) sep psep True w = Inr (?pw, ?w1)"
    using PointWriter_opened [OF assms(1), of sep psep True] by simp
  have f: "pw_file ?pw = Some ?h" by simp
  have e: "at_end ?h" by (simp add: at_end_def)
  have l: "raw ?h = [] \<or> unat (last (raw ?h)) < 128" using assms(2) by simp
  from write_array2 [OF f e l, of a p1] obtain h1
    where w1: "PointWriter_write a ?pw (Array2 p1) = Inr (?pw\<lparr>pw_file := Some h1\<rparr>)"
      and e1: "at_end h1" and q1: "h_path h1 = path"
      and r1: "raw h1 = ?c @ utf8_encode ?t1" by auto
  let ?pw1 = "?pw\<lparr>pw_file := Some h1\<rparr>"
  have t1: "?t1 \<noteq> [] \<and> last ?t1 = LF"
  proof (cases "p1 = []")
    case True
    with assms(3) have "?c \<noteq> []" by simp
    then show ?thesis using True header_text_last [of ?c psep] by (simp add: block_text_def)
  next
    case False
    then show ?thesis using block_text_last [OF False, of a sep] by simp
  qed
  have ne: "raw h1 \<noteq> []" and la: "last (raw h1) = 0x0A"
    using utf8_encode_ends_LF [of ?t1] t1 unfolding r1 by simp_all
  have f1: "pw_file ?pw1 = Some h1" by simp
  have l1: "raw h1 = [] \<or> unat (last (raw h1)) < 128" unfolding la by simp
  have hd2: "header_text psep (raw h1) = psep @ [LF]"
    using ne la by (simp add: header_text_def)
  from write_array2 [OF f1 e1 l1, of a p2] obtain h2
    where w2: "PointWriter_write a ?pw1 (Array2 p2) = Inr (?pw1\<lparr>pw_file := Some h2\<rparr>)"
      and q2: "h_path h2 = path"
      and r2: "raw h2 = raw h1 @ utf8_encode (psep @ [LF] @ block_text a sep p2)"
    using q1 by (auto simp: hd2)
  let ?w' = "close_file h2 ?w1"
  have "append_two a path sep psep w p1 p2 = Inr ?w'"
    using o w1 w2 by (simp add: append_two_def PointWriter_close_def)
  moreover have "file_bytes ?w' path =
      Some (?c @ utf8_encode (?t1 @ psep @ [LF] @ block_text a sep p2))"
    by (simp add: close_file_def q2 r2 r1 utf8_encode_append)
  ultimately show ?thesis by auto
qed

theorem append_two_pointsets_witness:
  "\<exists>w'. append_two astype_example ''p'' [TAB] ''#'' (world_with_file ''p'' [0x30, 0x2E, 0x30])
           [[0x3FF0000000000000, 0]] [[0, 0]] = Inr w' \<and>
        file_bytes w' ''p'' =
          Some ([0x30, 0x2E, 0x30]
                @ utf8_encode ([LF] @ ''#'' @ [LF] @ ''1.0'' @ [TAB] @ ''0.0'' @ [LF]
                               @ ''#'' @ [LF] @ ''0.0'' @ [TAB] @ ''0.0'' @ [LF]))"
proof -
  let ?w = "world_with_file ''p'' [0x30, 0x2E, 0x30]"
  have ob: "old_bytes ?w ''p'' = [0x30, 0x2E, 0x30]"
    by (simp add: old_bytes_def world_with_file_def)
  have a: "open_error ?w ''p'' = None" by (simp add: world_with_file_def world0_def)
  have b: "old_bytes ?w ''p'' = [] \<or> unat (last (old_bytes ?w ''p'')) < 128"
    by (simp add: ob)
  have c: "[[0x3FF0000000000000, 0]] \<noteq> ([] :: double list list) \<or> old_bytes ?w ''p'' \<noteq> []"
    by simp
  from append_two_pointsets [OF a b c, of astype_example "[TAB]" "''#''" "[[0, 0]]"]
  show ?thesis
    by (simp add: ob header_text_def block_text_def astype_example_def)
qed

section \<open>Writing a point set and reading it back\<close>

lemma universal_newlines_id: "CR \<notin> set s \<Longrightarrow> universal_newlines s = s"
  by (induction s rule: universal_newlines.induct) auto

lemma lines_from_line:
  "LF \<notin> set x \<Longrightarrow> lines_from acc (x @ LF # rest) = (acc @ x @ [LF]) # lines_from [] rest"
  by (induction x arbitrary: acc) auto

lemma lines_from_block:
  "\<forall>x \<in> set ls. LF \<notin> set x \<Longrightarrow>
   lines_from [] (concat (map (\<lambda>x. x @ [LF]) ls)) = map (\<lambda>x. x @ [LF]) ls"
proof (induction ls)
  case Nil
  then show ?case by simp
next
  case (Cons x ls)
  then have x: "LF \<notin> set x" and r: "\<forall>x \<in> set ls. LF \<notin> set x" by simp_all
  show ?case using lines_from_line [OF x, of "[]"] Cons.IH [OF r] by simp
qed

lemma split_from_join:
  "toks \<noteq> [] \<Longrightarrow> \<forall>t \<in> set toks. c \<notin> set t \<Longrightarrow> split_from [c] [] (join [c] toks) = toks"
proof (induction "[c]" toks rule: join.induct)
  case 1
  then show ?case by simp
next
  case (2 x)
  then show ?case by (simp add: split_from_last)
next
  case (3 x y ys)
  then have x: "c \<notin> set x" by simp
  from 3 have "split_from [c] [] (join [c] (y # ys)) = y # ys" by simp
  then show ?case using split_from_piece [OF x, of "[]" "join [c] (y # ys)"] by simp
qed

lemma join_nonempty:
  "toks \<noteq> [] \<Longrightarrow> \<forall>t \<in> set toks. t \<noteq> [] \<Longrightarrow>
   join sep toks \<noteq> [] \<and> hd (join sep toks) = hd (hd toks) \<and>
   last (join sep toks) = last (last toks)"
  by (induction sep toks rule: join.induct) auto

lemma join_chars:
  "set (join sep toks) \<subseteq> set sep \<union> \<Union> (set ` set toks)"
  by (induction sep toks rule: join.induct) auto

lemma strip_line:
  assumes "row \<noteq> []" and "\<not> isspace (hd row)" and "\<not> isspace (last row)"
  shows "strip (row @ [LF]) = row"
proof -
  have a: "dropWhile isspace (row @ [LF]) = row @ [LF]"
    using assms(1,2) by (cases row) simp_all
  have l: "isspace LF" by (simp add: isspace_def)
  have "rev row \<noteq> []" and "\<not> isspace (hd (rev row))"
    using assms(1,3) by (simp_all add: hd_rev)
  then have b: "dropWhile isspace (rev row) = rev row"
    by (cases "rev row") simp_all
  show ?thesis unfolding strip_def a using l b by simp
qed

lemma those_map:
  "\<forall>x \<in> set p. f (a x) = Some x \<Longrightarrow> those (map f (map a p)) = Some p"
  by (induction p) simp_all


lemma row_line:
  assumes "p \<noteq> []" and "\<forall>x \<in> set p. round_trips a np x"
  shows "str_split (strip (join [TAB] (map a p) @ [LF])) [TAB] = Inr (map a p)"
    and "those (map np (map a p)) = Some p"
    and "LF \<notin> set (join [TAB] (map a p))" and "CR \<notin> set (join [TAB] (map a p))"
proof -
  let ?toks = "map a p"
  have ne: "?toks \<noteq> []" using assms(1) by simp
  have tne: "\<forall>t \<in> set ?toks. t \<noteq> []" using assms(2) by (auto simp: round_trips_def)
  have nsp: "\<forall>t \<in> set ?toks. \<forall>c \<in> set t. \<not> isspace c"
    using assms(2) by (auto simp: round_trips_def)
  have tab: "isspace TAB" and lf: "isspace LF" and cr: "isspace CR" by (simp_all add: isspace_def)
  have notab: "\<forall>t \<in> set ?toks. TAB \<notin> set t" using nsp tab by blast
  note j = join_nonempty [OF ne tne, of "[TAB]"]
  have h: "\<not> isspace (hd (join [TAB] ?toks))"
  proof -
    have h1: "hd ?toks \<in> set ?toks" using ne by (rule hd_in_set)
    then have "hd ?toks \<noteq> []" using tne by blast
    then have "hd (hd ?toks) \<in> set (hd ?toks)" by (rule hd_in_set)
    then show ?thesis using h1 j nsp by metis
  qed
  have l: "\<not> isspace (last (join [TAB] ?toks))"
  proof -
    have l1: "last ?toks \<in> set ?toks" using ne by (rule last_in_set)
    then have "last ?toks \<noteq> []" using tne by blast
    then have "last (last ?toks) \<in> set (last ?toks)" by (rule last_in_set)
    then show ?thesis using l1 j nsp by metis
  qed
  have st: "strip (join [TAB] ?toks @ [LF]) = join [TAB] ?toks"
    using j h l by (intro strip_line) simp_all
  show "str_split (strip (join [TAB] ?toks @ [LF])) [TAB] = Inr ?toks"
    unfolding st by (simp add: str_split_def split_from_join [OF ne notab])
  show "those (map np ?toks) = Some p"
    using assms(2) by (intro those_map) (simp add: round_trips_def)
  have chars: "set (join [TAB] ?toks) \<subseteq> {TAB} \<union> \<Union> (set ` set ?toks)"
    using join_chars [of "[TAB]" ?toks] by simp
  show "LF \<notin> set (join [TAB] ?toks)"
  proof
    assume "LF \<in> set (join [TAB] ?toks)"
    with chars have "LF \<in> {TAB} \<union> \<Union> (set ` set ?toks)" by (rule subsetD)
    then have "LF \<in> \<Union> (set ` set ?toks)" by simp
    then obtain t where "t \<in> set ?toks" "LF \<in> set t" by blast
    with nsp lf show False by blast
  qed
  show "CR \<notin> set (join [TAB] ?toks)"
  proof
    assume "CR \<in> set (join [TAB] ?toks)"
    with chars have "CR \<in> {TAB} \<union> \<Union> (set ` set ?toks)" by (rule subsetD)
    then have "CR \<in> \<Union> (set ` set ?toks)" by simp
    then obtain t where "t \<in> set ?toks" "CR \<in> set t" by blast
    with nsp cr show False by blast
  qed
qed

lemma read_text_rows_block:
  assumes "pr_sep pr = [TAB]"
  shows "\<forall>p \<in> set ps. length p = pr_d pr \<and> p \<noteq> [] \<and> (\<forall>x \<in> set p. round_trips a np x) \<Longrightarrow>
         i + length ps \<le> length arr \<Longrightarrow>
         read_text_rows np pr i (map (\<lambda>p. join [TAB] (map a p) @ [LF]) ps) arr
           = Inr (take i arr @ ps @ drop (i + length ps) arr)"
proof (induction ps arbitrary: i arr)
  case Nil
  then show ?case by simp
next
  case (Cons p ps)
  then have p: "p \<noteq> []" "\<forall>x \<in> set p. round_trips a np x" and len: "length p = pr_d pr"
    and rest: "\<forall>p \<in> set ps. length p = pr_d pr \<and> p \<noteq> [] \<and> (\<forall>x \<in> set p. round_trips a np x)"
    and i: "i < length arr" and i': "Suc i + length ps \<le> length (arr[i := p])"
    by simp_all
  note r = row_line(1,2) [OF p]
  have "read_text_rows np pr i (map (\<lambda>p. join [TAB] (map a p) @ [LF]) (p # ps)) arr
        = read_text_rows np pr (Suc i) (map (\<lambda>p. join [TAB] (map a p) @ [LF]) ps) (arr[i := p])"
    using i len by (simp add: assms r del: map_map)
  also have "\<dots> = Inr (take (Suc i) (arr[i := p]) @ ps @ drop (Suc i + length ps) (arr[i := p]))"
    by (rule Cons.IH [OF rest i'])
  also have "take (Suc i) (arr[i := p]) = take i arr @ [p]"
    using i by (simp add: take_Suc_conv_app_nth)
  also have "drop (Suc i + length ps) (arr[i := p]) = drop (i + length (p # ps)) arr"
    by simp
  finally show ?case by simp
qed

lemma length_np_empty: "length (np_empty uninit n d) = n"
  by (simp add: np_empty_def)


lemma read_text_of_block:
  assumes "0 < d"
    and "\<forall>point \<in> set points. length point = d \<and> (\<forall>x \<in> set point. round_trips a np x)"
  shows "read_text_of np uninit (PointReader (length points) d) (block_text a [TAB] points)
           = Inr points"
proof -
  let ?line = "\<lambda>p. join [TAB] (map a p)"
  have good: "\<forall>p \<in> set points. length p = pr_d (PointReader (length points) d) \<and> p \<noteq> [] \<and>
                 (\<forall>x \<in> set p. round_trips a np x)"
    using assms by (auto simp: PointReader_def)
  have c: "block_text a [TAB] points = concat (map (\<lambda>x. x @ [LF]) (map ?line points))"
    by (simp add: block_text_def comp_def)
  have nolf: "\<forall>x \<in> set (map ?line points). LF \<notin> set x"
    using good row_line(3) by auto
  have nocr: "CR \<notin> set (block_text a [TAB] points)"
    unfolding c using good row_line(4) by auto
  have lines: "text_lines (block_text a [TAB] points) = map (\<lambda>p. ?line p @ [LF]) points"
    unfolding text_lines_def universal_newlines_id [OF nocr]
    unfolding c lines_from_block [OF nolf] by (simp add: comp_def)
  have sep: "pr_sep (PointReader (length points) d) = [TAB]" by (simp add: PointReader_def)
  show ?thesis
    unfolding read_text_of_def lines
    using read_text_rows_block [OF sep good, of 0 "np_empty uninit (length points) d"]
    by (simp add: length_np_empty PointReader_def)
qed

text \<open>
  Claim C2. A non-empty array of \<open>n\<close> rows and \<open>d\<close> columns is written in text mode by
  a \<^verbatim>\<open>PointWriter\<close> with the default separator, to a file that is new or empty or is
  opened without \<^verbatim>\<open>append\<close>, and the writer is closed. Then \<^verbatim>\<open>PointReader(n, d)\<close> reads
  the file in text mode, and the array read is the array written, for every array
  whose elements numpy prints and reads back faithfully; the conversions between
  doubles and strings are numpy's and are the parameters \<open>astype_str\<close> and \<open>np_double\<close>.
\<close>

theorem text_round_trip:
  assumes "points \<noteq> []" and "0 < d"
    and "\<forall>point \<in> set points. length point = d \<and> (\<forall>x \<in> set point. round_trips astype_str np_double x)"
    and "open_error w path = None"
    and "\<not> app \<or> old_bytes w path = []"
  shows "\<exists>w'. write_file astype_str path app w points = Inr w' \<and>
              read_text np_double uninit (PointReader (length points) d) w' path = Inr points"
proof -
  let ?bs = "if app then old_bytes w path else []"
  have bs: "?bs = []" using assms(5) by auto
  let ?h = "\<lparr>h_path = path, raw = [], pos = 0, appending = app\<rparr>"
  let ?pw = "\<lparr>pw_sep = [TAB], pointset_sep = ''#'', pw_append = app, pw_file = Some ?h\<rparr>"
  let ?w1 = "w\<lparr>path_exists := (path_exists w)(path := True),
               file_bytes := (file_bytes w)(path \<mapsto> [])\<rparr>"
  have o: "PointWriter (Some path) [TAB] ''#'' app w = Inr (?pw, ?w1)"
    using PointWriter_opened [OF assms(4), of "[TAB]" "''#''" app] by (simp add: bs)
  have f: "pw_file ?pw = Some ?h" by simp
  have e: "at_end ?h" by (simp add: at_end_def)
  have l: "raw ?h = [] \<or> unat (last (raw ?h)) < 128" by simp
  from write_array2 [OF f e l, of astype_str points] obtain h1
    where w1: "PointWriter_write astype_str ?pw (Array2 points) = Inr (?pw\<lparr>pw_file := Some h1\<rparr>)"
      and q1: "h_path h1 = path"
      and r1: "raw h1 = utf8_encode (block_text astype_str [TAB] points)"
    by (auto simp: header_text_def)
  let ?w' = "close_file h1 ?w1"
  have wf: "write_file astype_str path app w points = Inr ?w'"
    using o w1 by (simp add: write_file_def PointWriter_close_def)
  have fb: "file_bytes ?w' path = Some (utf8_encode (block_text astype_str [TAB] points))"
    by (simp add: close_file_def q1 r1)
  have "read_text np_double uninit (PointReader (length points) d) ?w' path = Inr points"
    unfolding read_text_def fb
    using read_text_of_block [OF assms(2,3), of uninit]
    by (simp add: utf8_decode_encode)
  with wf show ?thesis by blast
qed

theorem text_round_trip_witness:
  "\<exists>w'. write_file astype_example ''/tmp/p.dat'' True world0
           [[0x3FF0000000000000, 0], [0, 0x3FF0000000000000]] = Inr w' \<and>
        file_bytes w' ''/tmp/p.dat''
          = Some (utf8_encode (''1.0'' @ [TAB] @ ''0.0'' @ [LF] @ ''0.0'' @ [TAB] @ ''1.0'' @ [LF])) \<and>
        read_text np_double_example (\<lambda>i j. 0) (PointReader 2 2) w' ''/tmp/p.dat''
          = Inr [[0x3FF0000000000000, 0], [0, 0x3FF0000000000000]]"
proof -
  let ?pts = "[[0x3FF0000000000000, 0], [0, 0x3FF0000000000000]] :: double list list"
  have a: "?pts \<noteq> []" by simp
  have b: "(0 :: nat) < 2" by simp
  have c: "\<forall>point \<in> set ?pts.
      length point = 2 \<and> (\<forall>x \<in> set point. round_trips astype_example np_double_example x)"
    by (simp add: round_trips_def astype_example_def np_double_example_def isspace_def)
  have d: "open_error world0 ''/tmp/p.dat'' = None" by (simp add: world0_def)
  have e: "\<not> True \<or> old_bytes world0 ''/tmp/p.dat'' = []"
    by (simp add: old_bytes_def world0_def)
  from text_round_trip [OF a b c d e, of "\<lambda>i j. 0"]
  obtain w' where w: "write_file astype_example ''/tmp/p.dat'' True world0 ?pts = Inr w'"
    and r: "read_text np_double_example (\<lambda>i j. 0) (PointReader (length ?pts) 2) w' ''/tmp/p.dat''
             = Inr ?pts" by blast
  have r2: "read_text np_double_example (\<lambda>i j. 0) (PointReader 2 2) w' ''/tmp/p.dat'' = Inr ?pts"
    using r by (simp add: numeral_2_eq_2)
  have v: "(case write_file astype_example ''/tmp/p.dat'' True world0 ?pts of
              Inl e \<Rightarrow> None | Inr w' \<Rightarrow> file_bytes w' ''/tmp/p.dat'')
           = Some (utf8_encode (''1.0'' @ [TAB] @ ''0.0'' @ [LF] @ ''0.0'' @ [TAB] @ ''1.0'' @ [LF]))"
    by code_simp
  have t: "file_bytes w' ''/tmp/p.dat''
          = Some (utf8_encode (''1.0'' @ [TAB] @ ''0.0'' @ [LF] @ ''0.0'' @ [TAB] @ ''1.0'' @ [LF]))"
    using v unfolding w by simp
  show ?thesis using w r2 t by blast
qed

section \<open>Reading discrepancy results\<close>

lemma fill_result_map_of:
  "\<forall>p \<in> set pairs. np (snd p) \<noteq> None \<Longrightarrow>
   \<exists>r. fill_result np pairs acc = Inr r \<and>
       map_of r = map_of acc ++ map_of (rev (map (\<lambda>p. (fst p, the (np (snd p)))) pairs)) \<and>
       fst ` set r = fst ` set acc \<union> fst ` set pairs"
proof (induction pairs arbitrary: acc)
  case Nil
  then show ?case by simp
next
  case (Cons p pairs)
  obtain n v where p: "p = (n, v)" by (cases p)
  from Cons.prems obtain x where x: "np v = Some x" by (auto simp: p)
  from Cons.prems have rest: "\<forall>p \<in> set pairs. np (snd p) \<noteq> None" by simp
  from Cons.IH [OF rest, of "AList.update n x acc"]
  obtain r where r: "fill_result np pairs (AList.update n x acc) = Inr r"
    and m: "map_of r = map_of (AList.update n x acc)
              ++ map_of (rev (map (\<lambda>p. (fst p, the (np (snd p)))) pairs))"
    and k: "fst ` set r = fst ` set (AList.update n x acc) \<union> fst ` set pairs"
    by blast
  have "fill_result np (p # pairs) acc = Inr r" using r x by (simp add: p)
  moreover have "map_of r = map_of acc
      ++ map_of (rev (map (\<lambda>p. (fst p, the (np (snd p)))) (p # pairs)))"
    unfolding m by (simp add: p x update_conv' map_add_upd_left)
  moreover have "fst ` set r = fst ` set acc \<union> fst ` set (p # pairs)"
    unfolding k by (simp add: dom_update p)
  ultimately show ?case by blast
qed

lemma map_of_rev_last:
  "j < length xs \<Longrightarrow>
   (\<forall>j'. j < j' \<and> j' < length xs \<longrightarrow> fst (xs ! j') \<noteq> fst (xs ! j)) \<Longrightarrow>
   map_of (rev xs) (fst (xs ! j)) = Some (snd (xs ! j))"
proof (induction xs rule: rev_induct)
  case Nil
  then show ?case by simp
next
  case (snoc y ys)
  show ?case
  proof (cases "j = length ys")
    case True
    then show ?thesis by simp
  next
    case False
    with snoc.prems(1) have j: "j < length ys" by simp
    have ne: "fst y \<noteq> fst (ys ! j)"
      using snoc.prems(2) [rule_format, of "length ys"] j by (simp add: nth_append)
    have later: "\<forall>j'. j < j' \<and> j' < length ys \<longrightarrow> fst (ys ! j') \<noteq> fst (ys ! j)"
    proof (intro allI impI)
      fix j' assume a: "j < j' \<and> j' < length ys"
      then show "fst (ys ! j') \<noteq> fst (ys ! j)"
        using snoc.prems(2) [rule_format, of j'] j by (simp add: nth_append)
    qed
    from snoc.IH [OF j later] ne j show ?thesis
      by (cases y) (auto simp: nth_append)
  qed
qed


lemma fill_result_zip:
  assumes "length toks = length names" and "\<forall>t \<in> set toks. np t \<noteq> None"
  shows "\<exists>r. fill_result np (zip names toks) [] = Inr r \<and> result_matches np names toks r"
proof -
  let ?xs = "map (\<lambda>p. (fst p, the (np (snd p)))) (zip names toks)"
  have ok: "\<forall>p \<in> set (zip names toks). np (snd p) \<noteq> None"
    using assms(2) by (auto dest: set_zip_rightD)
  from fill_result_map_of [OF ok, of "[]"]
  obtain r where r: "fill_result np (zip names toks) [] = Inr r"
    and m: "map_of r = map_of (rev ?xs)"
    and k: "fst ` set r = fst ` set (zip names toks)" by auto
  have "fst ` set (zip names toks) = set (map fst (zip names toks))" by simp
  also have "\<dots> = set names" using assms(1) by (simp only: map_fst_zip)
  finally have keys: "fst ` set r = set names" using k by simp
  have len: "length ?xs = length names" using assms(1) by simp
  have nth: "?xs ! j = (names ! j, the (np (toks ! j)))" if "j < length names" for j
    using that assms(1) by simp
  have val: "map_of r (names ! j) = np (toks ! j)"
    if j: "j < length names"
      and d: "\<forall>j'. j < j' \<and> j' < length names \<longrightarrow> names ! j' \<noteq> names ! j" for j
  proof -
    have j': "j < length ?xs" using j len by simp
    have later: "\<forall>j'. j < j' \<and> j' < length ?xs \<longrightarrow> fst (?xs ! j') \<noteq> fst (?xs ! j)"
    proof (intro allI impI)
      fix j' assume a: "j < j' \<and> j' < length ?xs"
      then have "j' < length names" using len by simp
      with a d j show "fst (?xs ! j') \<noteq> fst (?xs ! j)" by (simp only: nth fst_conv) blast
    qed
    have "map_of (rev ?xs) (fst (?xs ! j)) = Some (snd (?xs ! j))"
      by (rule map_of_rev_last [OF j' later])
    then have "map_of r (names ! j) = Some (the (np (toks ! j)))"
      unfolding m by (simp only: nth [OF j] fst_conv snd_conv)
    moreover have "toks ! j \<in> set toks" using j assms(1) by simp
    then have "np (toks ! j) \<noteq> None" using assms(2) by blast
    ultimately show ?thesis by simp
  qed
  show ?thesis using r keys val unfolding result_matches_def by blast
qed

lemma read_result_lines_all:
  assumes "dr_sep dr \<noteq> []"
  shows "\<forall>line \<in> set data. length (line_values dr line) = length names \<and>
                          (\<forall>t \<in> set (line_values dr line). np t \<noteq> None) \<Longrightarrow>
         \<exists>rs. read_result_lines np dr names data = Inr rs \<and> length rs = length data \<and>
              (\<forall>i < length data. result_matches np names (line_values dr (data ! i)) (rs ! i))"
proof (induction data)
  case Nil
  then show ?case by simp
next
  case (Cons line data)
  then have l: "length (line_values dr line) = length names"
    and t: "\<forall>t \<in> set (line_values dr line). np t \<noteq> None"
    and rest: "\<forall>line \<in> set data. length (line_values dr line) = length names \<and>
                          (\<forall>t \<in> set (line_values dr line). np t \<noteq> None)" by simp_all
  from fill_result_zip [OF l t] obtain r
    where r: "fill_result np (zip names (line_values dr line)) [] = Inr r"
      and rm: "result_matches np names (line_values dr line) r" by blast
  from Cons.IH [OF rest] obtain rs
    where rs: "read_result_lines np dr names data = Inr rs" and len: "length rs = length data"
      and all: "\<forall>i < length data. result_matches np names (line_values dr (data ! i)) (rs ! i)"
    by blast
  have "read_result_lines np dr names (line # data) = Inr (r # rs)"
    using assms r rs by (simp add: str_split_def line_values_def)
  moreover have "length (r # rs) = length (line # data)" using len by simp
  moreover have "\<forall>i < length (line # data).
      result_matches np names (line_values dr ((line # data) ! i)) ((r # rs) ! i)"
  proof (intro allI impI)
    fix i assume "i < length (line # data)"
    then show "result_matches np names (line_values dr ((line # data) ! i)) ((r # rs) ! i)"
      using rm all by (cases i) simp_all
  qed
  ultimately show ?case by blast
qed

text \<open>
  Claim C3. The file decodes to a text with a first line of names separated by the
  separator, and each following line has as many non-empty tokens as there are names,
  all of them read by \<^verbatim>\<open>np.double\<close>. Then \<^verbatim>\<open>DiscrepancyReader.read\<close> returns one mapping
  for each data line; its keys are the header tokens without their first
  \<^verbatim>\<open>exclude_char\<close> characters, in lower case, empty tokens skipped; and the value of a
  name is the token of the line at the position of the name, parsed as a double, empty
  tokens skipped.
\<close>

theorem discrepancy_results:
  assumes "dr_sep dr \<noteq> []" and "0 \<le> dr_exclude dr"
    and "file_bytes w filepath = Some bs" and "utf8_decode bs = Inr text"
    and "text_lines text = header # data"
    and "\<forall>line \<in> set data.
           length (line_values dr line) = length (header_names dr header) \<and>
           (\<forall>t \<in> set (line_values dr line). np_double t \<noteq> None)"
  shows "\<exists>results. read_results np_double dr w filepath = Inr results \<and>
           length results = length data \<and>
           (\<forall>i < length data.
              fst ` set (results ! i) = set (header_names dr header) \<and>
              (\<forall>j < length (header_names dr header).
                 (\<forall>j'. j < j' \<and> j' < length (header_names dr header) \<longrightarrow>
                        header_names dr header ! j' \<noteq> header_names dr header ! j) \<longrightarrow>
                 map_of (results ! i) (header_names dr header ! j)
                   = np_double (line_values dr (data ! i) ! j)))"
proof -
  have n: "map (\<lambda>name. lower (slice_from (dr_exclude dr) name))
             (nonempty_tokens (split_from (dr_sep dr) [] (strip header)))
           = header_names dr header"
    using assms(2) by (simp add: header_names_def slice_from_def)
  have "read_results np_double dr w filepath
        = read_result_lines np_double dr (header_names dr header) data"
    using assms(1)
    by (simp add: read_results_def assms(3) assms(4) read_results_of_def assms(5) str_split_def n)
  with read_result_lines_all [OF assms(1) assms(6)]
  show ?thesis unfolding result_matches_def by simp
qed

theorem discrepancy_results_witness:
  "read_results np_double_example DiscrepancyReader_default
       (world_with_file ''out.dat''
          (utf8_encode (''#Zero'' @ [TAB, TAB] @ ''#ONE'' @ [LF] @ ''0.0'' @ [TAB, TAB] @ ''1.0'' @ [LF])))
       ''out.dat''
     = Inr [[(''zero'', 0), (''one'', 0x3FF0000000000000)]] \<and>
   header_names DiscrepancyReader_default (''#Zero'' @ [TAB, TAB] @ ''#ONE'' @ [LF])
     = [''zero'', ''one''] \<and>
   line_values DiscrepancyReader_default (''0.0'' @ [TAB, TAB] @ ''1.0'' @ [LF]) = [''0.0'', ''1.0'']"
proof -
  let ?dr = DiscrepancyReader_default
  let ?h = "''#Zero'' @ [TAB, TAB] @ ''#ONE'' @ [LF]"
  let ?l = "''0.0'' @ [TAB, TAB] @ ''1.0'' @ [LF]"
  let ?w = "world_with_file ''out.dat'' (utf8_encode (?h @ ?l))"
  have a: "dr_sep ?dr \<noteq> []" by (simp add: DiscrepancyReader_default_def)
  have b: "0 \<le> dr_exclude ?dr" by (simp add: DiscrepancyReader_default_def)
  have f: "file_bytes ?w ''out.dat'' = Some (utf8_encode (?h @ ?l))"
    by (simp add: world_with_file_def)
  have u: "utf8_decode (utf8_encode (?h @ ?l)) = Inr (?h @ ?l)" by (rule utf8_decode_encode)
  have c: "text_lines (?h @ ?l) = ?h # [?l]" by (simp add: text_lines_def)
  have hn: "header_names ?dr ?h = [''zero'', ''one'']"
    by code_simp
  have lv: "line_values ?dr ?l = [''0.0'', ''1.0'']"
    by (simp add: line_values_def DiscrepancyReader_default_def strip_def isspace_def
        nonempty_tokens_def)
  have d: "\<forall>line \<in> set [?l].
           length (line_values ?dr line) = length (header_names ?dr ?h) \<and>
           (\<forall>t \<in> set (line_values ?dr line). np_double_example t \<noteq> None)"
    using hn lv by (simp add: np_double_example_def)
  have v: "read_results np_double_example ?dr ?w ''out.dat''
     = Inr [[(''zero'', 0), (''one'', 0x3FF0000000000000)]]"
    by code_simp
  show ?thesis
    using hn lv v discrepancy_results [OF a b f u c d] by simp
qed

section \<open>The discrepancy of a point set\<close>

text \<open>
  Claim C7. \<^verbatim>\<open>Discrepancy.compute\<close> is claimed to write the points to a temporary
  file, run the executable and return the parsed metrics. The code calls
  \<^verbatim>\<open>writer.write(tmpfile, points)\<close> on a method that takes the points only, so every
  call raises \<^verbatim>\<open>TypeError\<close> before anything is written or run.
\<close>

theorem compute_raises: "compute np_double astype_str run dc w uuid1 uuid2 points s clean = Inl TypeError"
  by (simp add: compute_def write_call_def)

end
